theory Spec2Isabelle
  imports Complex_Main "HOL-Library.Char_ord" "HOL-Library.List_Lexorder"
begin

section \<open>Numbers\<close>

text \<open>
  A JavaScript number is modelled as an exact rational: the arithmetic of the totals
  (\<open>*\<close>, \<open>+\<close>, \<open>-\<close>, \<open>/ 100\<close>) is the arithmetic of the field, without the
  rounding error of IEEE doubles, and without \<open>NaN\<close> or the infinities.
  \<open>Math.round x\<close> is \<open>floor (x + 1/2)\<close>: a tie goes towards plus infinity.
\<close>

type_synonym number = rat

definition Math_round :: "number \<Rightarrow> int" where
  "Math_round x = \<lfloor>x + 1 / 2\<rfloor>"

text \<open>The expression \<open>Math.round(x * 100) / 100\<close> of \<open>calculateInvoiceTotals\<close>.\<close>

definition round_cents :: "number \<Rightarrow> number" where
  "round_cents x = of_int (Math_round (x * 100)) / 100"

text \<open>
  Rounding to two decimals, half away from zero, as the specification words it:
  the magnitude is rounded half up and the sign is put back.
\<close>

definition round_half_away :: "number \<Rightarrow> number" where
  "round_half_away x = sgn x * of_int \<lfloor>\<bar>x\<bar> * 100 + 1 / 2\<rfloor> / 100"

section \<open>Line items and the two reducers\<close>

record invoiceItem =
  description :: string
  quantity :: number
  rate :: number
  amount :: number

record invoiceTotals =
  totals_subtotal :: number
  totals_taxAmount :: number
  totals_discountAmount :: number
  totals_total :: number

text \<open>
  \<open>Array.prototype.reduce\<close> hands the callback a reference to each element, so a
  callback may assign to the element. The model threads the elements through the
  fold: a callback returns the new accumulator and the element as it leaves it.
\<close>

fun reduce_items ::
  "(number \<Rightarrow> invoiceItem \<Rightarrow> number \<times> invoiceItem) \<Rightarrow> invoiceItem list \<Rightarrow> number
     \<Rightarrow> number \<times> invoiceItem list" where
  "reduce_items f [] acc = (acc, [])"
| "reduce_items f (x # xs) acc =
     (case f acc x of (acc', x') \<Rightarrow>
        (case reduce_items f xs acc' of (r, xs') \<Rightarrow> (r, x' # xs')))"

text \<open>
  The callback of \<open>calculateInvoiceTotals\<close>:
  \<^verbatim>\<open>(sum, item) => { const amount = item.quantity * item.rate; return sum + amount; }\<close>
\<close>

definition totals_callback :: "number \<Rightarrow> invoiceItem \<Rightarrow> number \<times> invoiceItem" where
  "totals_callback acc item = (let amt = quantity item * rate item in (acc + amt, item))"

text \<open>
  The callback of the first \<open>pre('save')\<close> hook:
  \<^verbatim>\<open>(sum, item) => { item.amount = item.quantity * item.rate; return sum + item.amount; }\<close>
\<close>

definition hook_callback :: "number \<Rightarrow> invoiceItem \<Rightarrow> number \<times> invoiceItem" where
  "hook_callback acc item =
     (let item' = item\<lparr>amount := quantity item * rate item\<rparr> in (acc + amount item', item'))"

text \<open>
  \<open>calculateInvoiceTotals(items, taxRate, discountRate)\<close>. The result is the returned
  object together with the item array as the call leaves it.
\<close>

definition calculateInvoiceTotals ::
  "invoiceItem list \<Rightarrow> number \<Rightarrow> number \<Rightarrow> invoiceTotals \<times> invoiceItem list" where
  "calculateInvoiceTotals its taxR discountR =
     (case reduce_items totals_callback its 0 of (sub, its') \<Rightarrow>
        (let tax = (sub * taxR) / 100;
             disc = (sub * discountR) / 100;
             tot = sub + tax - disc
         in (\<lparr>totals_subtotal = round_cents sub,
              totals_taxAmount = round_cents tax,
              totals_discountAmount = round_cents disc,
              totals_total = round_cents tot\<rparr>, its')))"

text \<open>The raw, unrounded sum of \<open>quantity * rate\<close> over the items.\<close>

definition raw_subtotal :: "invoiceItem list \<Rightarrow> number" where
  "raw_subtotal its = (\<Sum>it \<leftarrow> its. quantity it * rate it)"

section \<open>Strings\<close>

text \<open>
  Strings are lists of characters, a character being a code point below \<open>U+0100\<close>;
  strings with other characters are outside the model. The invoice numbers that
  the program generates are ASCII. \<open>String(n)\<close> of a natural number is its decimal
  numeral; \<open>digit_char\<close> is applied to numbers below 10 only.
\<close>

definition digit_char :: "nat \<Rightarrow> char" where
  "digit_char d = ''0123456789'' ! d"

fun String_nat :: "nat \<Rightarrow> string" where
  "String_nat n =
     (if n < 10 then [digit_char n] else String_nat (n div 10) @ [digit_char (n mod 10)])"

declare String_nat.simps [simp del]

text \<open>
  The numbers that \<open>parseInt\<close> returns and \<open>lastSequence + 1\<close> produces are \<open>NaN\<close>
  (\<open>None\<close>) or an integer. The integers of the model are exact. JavaScript's are
  doubles: \<open>parseInt\<close>, the successor and \<open>String\<close> agree with the model as long
  as the values are safe integers, of magnitude at most \<open>MAX_SAFE_INTEGER\<close>, and
  differ from it beyond (the double loses the low digits, and \<open>String\<close> turns to
  exponent notation from \<open>1e21\<close>). Every statement below that reaches a parsed
  value keeps it within the safe integers.
\<close>

type_synonym jsInteger = "int option"

definition MAX_SAFE_INTEGER :: int where
  "MAX_SAFE_INTEGER = 2 ^ 53 - 1"

definition String_number :: "jsInteger \<Rightarrow> string" where
  "String_number v =
     (case v of
        None \<Rightarrow> ''NaN''
      | Some i \<Rightarrow> if i < 0 then CHR ''-'' # String_nat (nat (- i)) else String_nat (nat i))"

definition padStart :: "nat \<Rightarrow> char \<Rightarrow> string \<Rightarrow> string" where
  "padStart n c s = replicate (n - length s) c @ s"

text \<open>\<open>s.split(c)\<close> for a one-character separator: never empty.\<close>

fun split :: "char \<Rightarrow> string \<Rightarrow> string list" where
  "split c [] = [[]]"
| "split c (x # xs) =
     (if x = c then [] # split c xs
      else (case split c xs of [] \<Rightarrow> [[x]] | s # ss \<Rightarrow> (x # s) # ss))"

text \<open>Reading an array at an index: \<open>undefined\<close> (\<open>None\<close>) out of range.\<close>

definition index_at :: "'a list \<Rightarrow> nat \<Rightarrow> 'a option" where
  "index_at xs i = (if i < length xs then Some (xs ! i) else None)"

definition startsWith :: "string \<Rightarrow> string \<Rightarrow> bool" where
  "startsWith p s = (take (length p) s = p)"

text \<open>
  The white space that \<open>parseInt\<close> skips, as far as it lies below \<open>U+0100\<close>: TAB,
  LF, VT, FF, CR, SP and the no-break space \<open>U+00A0\<close>.
\<close>

definition StrWhiteSpaceChar :: "char \<Rightarrow> bool" where
  "StrWhiteSpaceChar c = (of_char c \<in> {9, 10, 11, 12, 13, 32, 160 :: nat})"

definition digit_of :: "char \<Rightarrow> nat option" where
  "digit_of c = (if CHR ''0'' \<le> c \<and> c \<le> CHR ''9'' then Some (of_char c - 48) else None)"

definition hex_digit_of :: "char \<Rightarrow> nat option" where
  "hex_digit_of c =
     (if CHR ''0'' \<le> c \<and> c \<le> CHR ''9'' then Some (of_char c - 48)
      else if CHR ''a'' \<le> c \<and> c \<le> CHR ''f'' then Some (of_char c - 87)
      else if CHR ''A'' \<le> c \<and> c \<le> CHR ''F'' then Some (of_char c - 55)
      else None)"

definition digits_value :: "(char \<Rightarrow> nat option) \<Rightarrow> int \<Rightarrow> string \<Rightarrow> int" where
  "digits_value dig radix ds =
     foldl (\<lambda>acc c. case dig c of None \<Rightarrow> acc | Some d \<Rightarrow> acc * radix + int d) 0 ds"

text \<open>
  \<open>parseInt(s)\<close> with no radix argument: leading white space is dropped, then an
  optional sign, then an optional \<open>0x\<close> or \<open>0X\<close> that selects radix 16; the value is
  that of the longest run of digits that follows, and \<open>NaN\<close> when that run is empty.
\<close>

definition parseInt :: "string \<Rightarrow> jsInteger" where
  "parseInt s =
     (let s1 = dropWhile StrWhiteSpaceChar s;
          neg = (s1 \<noteq> [] \<and> hd s1 = CHR ''-'');
          s2 = (if s1 \<noteq> [] \<and> (hd s1 = CHR ''+'' \<or> hd s1 = CHR ''-'') then tl s1 else s1);
          hex = (take 2 s2 = ''0x'' \<or> take 2 s2 = ''0X'');
          s3 = (if hex then drop 2 s2 else s2);
          dig = (if hex then hex_digit_of else digit_of);
          ds = takeWhile (\<lambda>c. dig c \<noteq> None) s3
      in if ds = [] then None
         else let v = digits_value dig (if hex then 16 else 10) ds
              in Some (if neg then - v else v))"

text \<open>\<open>parseInt\<close> of a value that may be \<open>undefined\<close>: it is first turned into a string.\<close>

definition parseInt_value :: "string option \<Rightarrow> jsInteger" where
  "parseInt_value v = (case v of None \<Rightarrow> parseInt ''undefined'' | Some s \<Rightarrow> parseInt s)"

section \<open>Invoices\<close>

type_synonym objectId = nat

datatype invoiceStatus = Draft | Sent | Paid | Overdue | Cancelled

datatype invoiceTemplate = Default | Modern | Minimal | Professional

text \<open>
  The document of the \<open>Invoice\<close> model. Dates are milliseconds since the epoch. The
  fields \<open>createdAt\<close> and \<open>updatedAt\<close> of Mongoose's timestamps and the version key
  are left out: no operation below reads them. The field \<open>notes\<close> is
  \<open>invoice_notes\<close> here.
\<close>

record invoice =
  oid :: objectId
  userId :: objectId
  customerId :: objectId
  invoiceNumber :: string
  status :: invoiceStatus
  items :: "invoiceItem list"
  subtotal :: number
  taxRate :: number
  taxAmount :: number
  discountRate :: number
  discountAmount :: number
  total :: number
  currency :: string
  issueDate :: int
  dueDate :: int
  paidDate :: "int option"
  invoice_notes :: "string option"
  terms :: "string option"
  template :: invoiceTemplate
  pdfPath :: "string option"

text \<open>The value of \<open>new Date()\<close>: the parts of the clock that the program reads.\<close>

record date =
  getFullYear :: nat
  getMonth :: nat
  getTime :: int

section \<open>The schema: validators, hooks and unique indexes\<close>

text \<open>
  The validators that the schema declares: \<open>required\<close> (a required string must not
  be empty), \<open>min\<close>, \<open>max\<close>, \<open>maxlength\<close> and the validator of \<open>items\<close>. The
  enumerations of \<open>status\<close> and \<open>template\<close> are the two datatypes.
\<close>

definition validate_item :: "invoiceItem \<Rightarrow> bool" where
  "validate_item it \<longleftrightarrow>
     description it \<noteq> [] \<and> length (description it) \<le> 200
     \<and> 1 / 100 \<le> quantity it \<and> 0 \<le> rate it \<and> 0 \<le> amount it"

definition optional_maxlength :: "nat \<Rightarrow> string option \<Rightarrow> bool" where
  "optional_maxlength n v = (case v of None \<Rightarrow> True | Some s \<Rightarrow> length s \<le> n)"

definition validate_invoice :: "invoice \<Rightarrow> bool" where
  "validate_invoice doc \<longleftrightarrow>
     invoiceNumber doc \<noteq> []
     \<and> items doc \<noteq> [] \<and> list_all validate_item (items doc)
     \<and> 0 \<le> subtotal doc
     \<and> 0 \<le> taxRate doc \<and> taxRate doc \<le> 100
     \<and> 0 \<le> taxAmount doc
     \<and> 0 \<le> discountRate doc \<and> discountRate doc \<le> 100
     \<and> 0 \<le> discountAmount doc
     \<and> 0 \<le> total doc
     \<and> currency doc \<noteq> [] \<and> length (currency doc) \<le> 3
     \<and> optional_maxlength 1000 (invoice_notes doc) \<and> optional_maxlength 1000 (terms doc)"

text \<open>The first \<open>pre('save')\<close> hook: amounts and totals, recomputed from the items.\<close>

definition pre_save_totals :: "invoice \<Rightarrow> invoice" where
  "pre_save_totals doc =
     (case reduce_items hook_callback (items doc) 0 of (sub, its') \<Rightarrow>
        (let tax = (sub * taxRate doc) / 100;
             disc = (sub * discountRate doc) / 100
         in doc\<lparr>items := its', subtotal := sub, taxAmount := tax, discountAmount := disc,
                total := sub + tax - disc\<rparr>))"

text \<open>
  The second \<open>pre('save')\<close> hook: the status rules, an \<open>if\<close> / \<open>else if\<close> chain.
  A \<open>Date\<close> object is truthy, \<open>null\<close> and \<open>undefined\<close> are not.
\<close>

definition pre_save_status :: "date \<Rightarrow> invoice \<Rightarrow> invoice" where
  "pre_save_status now doc =
     (if paidDate doc \<noteq> None \<and> status doc \<noteq> Paid then doc\<lparr>status := Paid\<rparr>
      else if paidDate doc = None \<and> status doc = Paid then doc\<lparr>paidDate := None\<rparr>
      else if dueDate doc < getTime now \<and> status doc = Sent \<and> paidDate doc = None
        then doc\<lparr>status := Overdue\<rparr>
      else doc)"

text \<open>
  The schema declares two unique indexes: \<open>unique: true\<close> on \<open>invoiceNumber\<close> alone
  and the compound index on \<open>(userId, invoiceNumber)\<close>. The database rejects an
  insert that collides with a stored document on either of them.
\<close>

definition unique_invoiceNumber :: "invoice \<Rightarrow> invoice list \<Rightarrow> bool" where
  "unique_invoiceNumber doc store = list_all (\<lambda>e. invoiceNumber e \<noteq> invoiceNumber doc) store"

definition unique_userId_invoiceNumber :: "invoice \<Rightarrow> invoice list \<Rightarrow> bool" where
  "unique_userId_invoiceNumber doc store =
     list_all (\<lambda>e. \<not> (userId e = userId doc \<and> invoiceNumber e = invoiceNumber doc)) store"

text \<open>The two hooks in the order of their registration.\<close>

definition pre_save :: "date \<Rightarrow> invoice \<Rightarrow> invoice" where
  "pre_save now doc = pre_save_status now (pre_save_totals doc)"

datatype saveError = ValidationError | DuplicateKey

text \<open>
  \<open>save()\<close> of a new document: the validation, which Mongoose runs ahead of the
  hooks of the schema, then the two hooks, then the insert.
\<close>

definition save_new :: "date \<Rightarrow> invoice \<Rightarrow> invoice list \<Rightarrow> saveError + invoice \<times> invoice list" where
  "save_new now doc store =
     (if \<not> validate_invoice doc then Inl ValidationError
      else let doc' = pre_save now doc
           in if unique_invoiceNumber doc' store \<and> unique_userId_invoiceNumber doc' store
              then Inr (doc', store @ [doc'])
              else Inl DuplicateKey)"

section \<open>The invoice number generator\<close>

text \<open>\<^verbatim>\<open>`INV-${year}-${month}`\<close> with the month padded to two digits.\<close>

definition invoice_prefix :: "date \<Rightarrow> string" where
  "invoice_prefix now =
     ''INV-'' @ String_nat (getFullYear now) @ ''-''
       @ padStart 2 CHR ''0'' (String_nat (getMonth now + 1))"

text \<open>
  \<^verbatim>\<open>Invoice.findOne({ userId, invoiceNumber: { $regex: `^${prefix}` } }).sort({ invoiceNumber: -1 })\<close>:
  of the owner's invoices whose number starts with the prefix (the prefix holds no
  character that is special in a regular expression), the one with the greatest
  number in the order of strings.
\<close>

definition findLatest :: "objectId \<Rightarrow> string \<Rightarrow> invoice list \<Rightarrow> invoice option" where
  "findLatest uid prefix store =
     (case filter (\<lambda>i. userId i = uid \<and> startsWith prefix (invoiceNumber i)) store of
        [] \<Rightarrow> None
      | x # xs \<Rightarrow>
          Some (foldl (\<lambda>best i. if invoiceNumber best < invoiceNumber i then i else best) x xs))"

definition generateInvoiceNumber :: "objectId \<Rightarrow> date \<Rightarrow> invoice list \<Rightarrow> string" where
  "generateInvoiceNumber uid now store =
     (let prefix = invoice_prefix now;
          latestInvoice = findLatest uid prefix store;
          sequence =
            (case latestInvoice of
               None \<Rightarrow> Some 1
             | Some doc \<Rightarrow>
                 (let lastSequence =
                        parseInt_value (index_at (split CHR ''-'' (invoiceNumber doc)) 3)
                  in map_option (\<lambda>v. v + 1) lastSequence))
      in prefix @ ''-'' @ padStart 4 CHR ''0'' (String_number sequence))"

text \<open>The number with sequence \<open>k\<close> under the prefix of the clock's year and month.\<close>

definition sequence_number :: "date \<Rightarrow> nat \<Rightarrow> string" where
  "sequence_number now k = invoice_prefix now @ ''-'' @ padStart 4 CHR ''0'' (String_nat k)"

section \<open>The controllers\<close>

datatype apiError = BadRequest | Forbidden | NotFound | ServerError saveError

text \<open>The next unused identifier stands for the driver's new \<open>ObjectId\<close>.\<close>

definition fresh_oid :: "invoice list \<Rightarrow> objectId" where
  "fresh_oid store = Suc (foldr max (map oid store) 0)"

record createRequest =
  req_customerId :: objectId
  req_items :: "invoiceItem list"
  req_dueDate :: int
  req_taxRate :: "number option"
  req_discountRate :: "number option"
  req_currency :: "string option"
  req_notes :: "string option"
  req_terms :: "string option"

text \<open>
  The rules \<open>invoiceValidation\<close> of the route, as far as they constrain the typed
  fields of the request: an absent optional field passes.
\<close>

definition optional_percent :: "number option \<Rightarrow> bool" where
  "optional_percent v = (case v of None \<Rightarrow> True | Some r \<Rightarrow> 0 \<le> r \<and> r \<le> 100)"

definition invoiceValidation :: "createRequest \<Rightarrow> bool" where
  "invoiceValidation req \<longleftrightarrow>
     1 \<le> length (req_items req)
     \<and> list_all (\<lambda>it. description it \<noteq> [] \<and> length (description it) \<le> 200
                      \<and> 0 < quantity it \<and> 0 \<le> rate it) (req_items req)
     \<and> optional_percent (req_taxRate req) \<and> optional_percent (req_discountRate req)
     \<and> (case req_currency req of None \<Rightarrow> True | Some c \<Rightarrow> length c = 3)
     \<and> optional_maxlength 1000 (req_notes req) \<and> optional_maxlength 1000 (req_terms req)"

text \<open>
  The document that \<open>createInvoice\<close> builds with \<open>new Invoice({...})\<close>: the totals
  are those returned by \<open>calculateInvoiceTotals\<close>, the amount of each item is
  recomputed, and the schema's defaults fill the status, the paid date, the issue
  date, the template and the path of the PDF.
\<close>

definition createInvoice_document ::
  "objectId \<Rightarrow> createRequest \<Rightarrow> date \<Rightarrow> string \<Rightarrow> objectId \<Rightarrow> invoice" where
  "createInvoice_document uid req now num i =
     (let taxR = (case req_taxRate req of None \<Rightarrow> 0 | Some t \<Rightarrow> t);
          discountR = (case req_discountRate req of None \<Rightarrow> 0 | Some d \<Rightarrow> d);
          cur = (case req_currency req of None \<Rightarrow> ''USD'' | Some c \<Rightarrow> c)
      in case calculateInvoiceTotals (req_items req) taxR discountR of (totals, its) \<Rightarrow>
           \<lparr>oid = i, userId = uid, customerId = req_customerId req,
            invoiceNumber = num, status = Draft,
            items = map (\<lambda>item. item\<lparr>amount := quantity item * rate item\<rparr>) its,
            subtotal = totals_subtotal totals, taxRate = taxR,
            taxAmount = totals_taxAmount totals, discountRate = discountR,
            discountAmount = totals_discountAmount totals,
            total = totals_total totals, currency = cur,
            issueDate = getTime now, dueDate = req_dueDate req, paidDate = None,
            invoice_notes = req_notes req, terms = req_terms req,
            template = Default, pdfPath = None\<rparr>)"

text \<open>
  \<open>createInvoice\<close> without its lookup of the customer: the check of the validation
  result, then the totals, the number, the new document and its save. An error of
  the save is answered with status 500. The lookup of the customer and the
  middleware of the route are added by \<open>post_invoices\<close> below.
\<close>

definition createInvoice ::
  "objectId \<Rightarrow> createRequest \<Rightarrow> date \<Rightarrow> invoice list \<Rightarrow> apiError + invoice \<times> invoice list" where
  "createInvoice uid req now store =
     (if \<not> invoiceValidation req then Inl BadRequest
      else let num = generateInvoiceNumber uid now store;
               doc = createInvoice_document uid req now num (fresh_oid store)
           in case save_new now doc store of
                Inl e \<Rightarrow> Inl (ServerError e)
              | Inr r \<Rightarrow> Inr r)"

text \<open>
  The status part of \<open>updateInvoice\<close>:
  \<^verbatim>\<open>if (status) { invoice.status = status;
      if (status === 'paid' && !invoice.paidDate) invoice.paidDate = new Date();
      else if (status !== 'paid') invoice.paidDate = undefined; }\<close>
\<close>

definition updateInvoice_status :: "invoiceStatus option \<Rightarrow> date \<Rightarrow> invoice \<Rightarrow> invoice" where
  "updateInvoice_status st now doc =
     (case st of
        None \<Rightarrow> doc
      | Some s \<Rightarrow>
          (let doc1 = doc\<lparr>status := s\<rparr>
           in if s = Paid \<and> paidDate doc1 = None then doc1\<lparr>paidDate := Some (getTime now)\<rparr>
              else if s \<noteq> Paid then doc1\<lparr>paidDate := None\<rparr>
              else doc1))"

text \<open>
  \<open>duplicateInvoice\<close>: the original is looked up by its identifier among the caller's
  invoices; the copy takes every field of the original except the identifier, the
  number, the status and the paid date, and is saved as a new document.
\<close>

definition duplicateInvoice ::
  "objectId \<Rightarrow> objectId \<Rightarrow> date \<Rightarrow> invoice list \<Rightarrow> apiError + invoice \<times> invoice list" where
  "duplicateInvoice uid i now store =
     (case find (\<lambda>e. oid e = i \<and> userId e = uid) store of
        None \<Rightarrow> Inl NotFound
      | Some originalInvoice \<Rightarrow>
          (let num = generateInvoiceNumber uid now store;
               newInvoice = originalInvoice\<lparr>oid := fresh_oid store, invoiceNumber := num,
                              status := Draft, paidDate := None\<rparr>
           in case save_new now newInvoice store of
                Inl e \<Rightarrow> Inl (ServerError e)
              | Inr r \<Rightarrow> Inr r))"

section \<open>The routes\<close>

text \<open>
  The authenticated user of a request, \<open>req.user\<close>, with the fields that the
  middleware \<open>checkInvoiceLimit\<close> reads. The schema's defaults are the free plan,
  \<open>invoiceCount = 0\<close> and \<open>maxInvoices = 5\<close>.
\<close>

datatype userPlan = Free | Pro | Business

record user =
  user_oid :: objectId
  plan :: userPlan
  invoiceCount :: int
  maxInvoices :: int

text \<open>
  \<open>checkInvoiceLimit\<close>: true when the middleware calls \<open>next()\<close>, false when it
  answers 403.
\<close>

definition checkInvoiceLimit :: "user \<Rightarrow> bool" where
  "checkInvoiceLimit u =
     (if plan u = Pro \<or> plan u = Business then True
      else if maxInvoices u \<le> invoiceCount u then False
      else True)"

text \<open>A customer document, with the two fields that \<open>createInvoice\<close> queries.\<close>

record customer =
  customer_oid :: objectId
  customer_userId :: objectId

text \<open>\<^verbatim>\<open>Customer.findOne({ _id: customerId, userId: req.user._id })\<close>\<close>

definition findCustomer :: "customer list \<Rightarrow> objectId \<Rightarrow> objectId \<Rightarrow> customer option" where
  "findCustomer cs cid uid = find (\<lambda>c. customer_oid c = cid \<and> customer_userId c = uid) cs"

text \<open>
  The route \<open>POST /api/invoices\<close> after authentication: \<open>checkInvoiceLimit\<close>
  (status 403), then the controller in the order of its source: the check of the
  validation result (400), the lookup of the customer among those of the caller
  (404), the totals, the number and the save (500 when it fails), and after the
  save the increment of the owner's \<open>invoiceCount\<close>. The result holds the created
  invoice, the collection and the user as the next request finds them.
\<close>

definition post_invoices ::
  "user \<Rightarrow> customer list \<Rightarrow> createRequest \<Rightarrow> date \<Rightarrow> invoice list
     \<Rightarrow> apiError + invoice \<times> invoice list \<times> user" where
  "post_invoices u cs req now store =
     (if \<not> checkInvoiceLimit u then Inl Forbidden
      else if \<not> invoiceValidation req then Inl BadRequest
      else if findCustomer cs (req_customerId req) (user_oid u) = None then Inl NotFound
      else case createInvoice (user_oid u) req now store of
             Inl e \<Rightarrow> Inl e
           | Inr (doc, store') \<Rightarrow> Inr (doc, store', u\<lparr>invoiceCount := invoiceCount u + 1\<rparr>))"


text \<open>
  A run of create requests by one owner, one after the other, each with its own
  reading of the clock: the answer to each request (the number of the created
  invoice, or the error), and the collection and the user at the end.
\<close>

fun request_cycles ::
  "user \<Rightarrow> customer list \<Rightarrow> (date \<times> createRequest) list \<Rightarrow> invoice list
     \<Rightarrow> (apiError + string) list \<times> invoice list \<times> user" where
  "request_cycles u cs [] store = ([], store, u)"
| "request_cycles u cs ((now, req) # rest) store =
     (case post_invoices u cs req now store of
        Inl e \<Rightarrow> (case request_cycles u cs rest store of (out, r) \<Rightarrow> (Inl e # out, r))
      | Inr (doc, store', u') \<Rightarrow>
          (case request_cycles u' cs rest store' of
             (out, r) \<Rightarrow> (Inr (invoiceNumber doc) # out, r)))"

section \<open>Auxiliary notions for the statements\<close>

text \<open>A string of decimal digits.\<close>

definition digits :: "string \<Rightarrow> bool" where
  "digits s = (\<forall>c\<in>set s. \<exists>d<10. c = digit_char d)"

text \<open>The default \<open>= 0\<close> of the destructured \<open>taxRate\<close> and \<open>discountRate\<close>.\<close>

definition rate_or_zero :: "number option \<Rightarrow> number" where
  "rate_or_zero v = (case v of None \<Rightarrow> 0 | Some r \<Rightarrow> r)"

text \<open>Two readings of the clock in the same year and month.\<close>

definition same_month :: "date \<Rightarrow> date \<Rightarrow> bool" where
  "same_month a b \<longleftrightarrow> getFullYear a = getFullYear b \<and> getMonth a = getMonth b"

text \<open>
  A create request of the owner \<open>uid\<close> that the route and the schema both accept:
  made in the month of \<open>now\<close>, passing the rules of the route, for a customer of
  the owner, with quantities of at least 0.01.
\<close>

definition cycle_ok :: "objectId \<Rightarrow> customer list \<Rightarrow> date \<Rightarrow> date \<times> createRequest \<Rightarrow> bool" where
  "cycle_ok uid cs now c \<longleftrightarrow>
     same_month now (fst c) \<and> invoiceValidation (snd c)
     \<and> findCustomer cs (req_customerId (snd c)) uid \<noteq> None
     \<and> list_all (\<lambda>it. 1 / 100 \<le> quantity it) (req_items (snd c))"

text \<open>The plan of the user admits \<open>n\<close> more invoices.\<close>

definition within_limit :: "user \<Rightarrow> nat \<Rightarrow> bool" where
  "within_limit u n \<longleftrightarrow>
     plan u = Pro \<or> plan u = Business \<or> invoiceCount u + int n \<le> maxInvoices u"

text \<open>
  The shape \<open>PREFIX-SEQ\<close> in the words of the specification: the prefix, a dash and
  a non-empty run of decimal digits.
\<close>

definition well_formed_number :: "string \<Rightarrow> string \<Rightarrow> bool" where
  "well_formed_number prefix num \<longleftrightarrow>
     startsWith (prefix @ ''-'') num
     \<and> drop (length prefix + 1) num \<noteq> []
     \<and> list_all (\<lambda>c. digit_of c \<noteq> None) (drop (length prefix + 1) num)"

text \<open>
  A fourth segment in which \<open>parseInt\<close> finds no integer at once: it is missing,
  empty, or starts with an ASCII character that is neither white space, a sign nor
  a digit.
\<close>

definition no_leading_integer :: "string option \<Rightarrow> bool" where
  "no_leading_integer seg =
     (case seg of
        None \<Rightarrow> True
      | Some s \<Rightarrow> s = [] \<or> (of_char (hd s) < (128 :: nat) \<and> \<not> StrWhiteSpaceChar (hd s)
                             \<and> hd s \<noteq> CHR ''+'' \<and> hd s \<noteq> CHR ''-''
                             \<and> digit_of (hd s) = None))"


text \<open>The longest run of decimal digits at the start of a string.\<close>

definition leading_digits :: "string \<Rightarrow> string" where
  "leading_digits s = takeWhile (\<lambda>c. digit_of c \<noteq> None) s"

section \<open>Example data\<close>

text \<open>
  September 2025; a request with one item of quantity 1 and rate 0.125 at a tax
  rate of 50; a stored invoice of the same content, as the hooks leave it; an
  owner on the pro plan with the customer of the request.
\<close>

definition example_now :: date where
  "example_now = \<lparr>getFullYear = 2025, getMonth = 8, getTime = 1757000000000\<rparr>"

definition example_request :: createRequest where
  "example_request =
     \<lparr>req_customerId = 7,
      req_items = [\<lparr>description = ''Consulting'', quantity = 1, rate = 1 / 8, amount = 0\<rparr>],
      req_dueDate = 1759000000000, req_taxRate = Some 50, req_discountRate = None,
      req_currency = None, req_notes = None, req_terms = None\<rparr>"

definition example_invoice :: "objectId \<Rightarrow> objectId \<Rightarrow> string \<Rightarrow> invoice" where
  "example_invoice i uid num =
     \<lparr>oid = i, userId = uid, customerId = 7, invoiceNumber = num, status = Draft,
      items = [\<lparr>description = ''Consulting'', quantity = 1, rate = 1 / 8, amount = 1 / 8\<rparr>],
      subtotal = 1 / 8, taxRate = 50, taxAmount = 1 / 16, discountRate = 0,
      discountAmount = 0, total = 3 / 16, currency = ''USD'',
      issueDate = 1757000000000, dueDate = 1759000000000, paidDate = None,
      invoice_notes = None, terms = None, template = Default, pdfPath = None\<rparr>"

definition example_user :: user where
  "example_user = \<lparr>user_oid = 11, plan = Pro, invoiceCount = 1, maxInvoices = - 1\<rparr>"

definition example_customers :: "customer list" where
  "example_customers = [\<lparr>customer_oid = 7, customer_userId = 11\<rparr>]"

definition example_paid_invoice :: invoice where
  "example_paid_invoice =
     (example_invoice 101 11 ''INV-2025-09-0001'')\<lparr>status := Paid, paidDate := Some 1757100000000\<rparr>"

definition example_duplicate :: invoice where
  "example_duplicate =
     example_paid_invoice\<lparr>oid := 102, invoiceNumber := ''INV-2025-09-0002'',
       status := Draft, paidDate := None\<rparr>"

section \<open>Helper facts on rounding and the reducers\<close>

lemma floor_rat_numeral:
  "\<lfloor>(numeral a :: rat) / numeral b\<rfloor> = numeral a div numeral b"
  using floor_divide_of_int_eq [of "numeral a" "numeral b", where ?'a = rat] by simp

lemma floor_rat_half: "\<lfloor>(1 :: rat) / 2\<rfloor> = 0"
  by (simp add: floor_eq_iff)

lemma reduce_totals_callback:
  "reduce_items totals_callback its acc = (acc + raw_subtotal its, its)"
  by (induction its arbitrary: acc) (simp_all add: totals_callback_def raw_subtotal_def)

lemma reduce_hook_callback:
  "reduce_items hook_callback its acc =
     (acc + raw_subtotal its, map (\<lambda>it. it\<lparr>amount := quantity it * rate it\<rparr>) its)"
  by (induction its arbitrary: acc) (simp_all add: hook_callback_def raw_subtotal_def)

lemma round_cents_nonneg:
  assumes "0 \<le> x"
  shows "round_cents x = round_half_away x"
proof (cases "x = 0")
  case True
  then show ?thesis
    by (simp add: round_cents_def round_half_away_def Math_round_def floor_rat_half)
next
  case False
  with assms have "0 < x" by simp
  then show ?thesis by (simp add: round_cents_def round_half_away_def Math_round_def)
qed

section \<open>Helper facts on strings and invoice numbers\<close>

lemma digit_cases:
  "d < 10 \<Longrightarrow> d = 0 \<or> d = 1 \<or> d = 2 \<or> d = 3 \<or> d = 4 \<or> d = 5 \<or> d = 6 \<or> d = 7 \<or> d = 8 \<or> d = (9::nat)"
  by arith

lemma of_char_digit_char: "d < 10 \<Longrightarrow> of_char (digit_char d) = (48 + d :: nat)"
  using digit_cases [of d] by (auto simp: digit_char_def)

lemma digit_of_digit_char: "d < 10 \<Longrightarrow> digit_of (digit_char d) = Some d"
  using digit_cases [of d] by (auto simp: digit_char_def digit_of_def)

lemma digit_char_not_special:
  "d < 10 \<Longrightarrow> digit_char d \<noteq> CHR ''-'' \<and> digit_char d \<noteq> CHR ''+'' \<and> digit_char d \<noteq> CHR ''x''
     \<and> digit_char d \<noteq> CHR ''X'' \<and> \<not> StrWhiteSpaceChar (digit_char d)"
  using digit_cases [of d] by (auto simp: digit_char_def StrWhiteSpaceChar_def)

lemma digit_char_less: "a < 10 \<Longrightarrow> b < 10 \<Longrightarrow> digit_char a < digit_char b \<longleftrightarrow> a < b"
  by (simp add: less_char_def of_char_digit_char)

lemma digit_char_eq: "a < 10 \<Longrightarrow> b < 10 \<Longrightarrow> digit_char a = digit_char b \<longleftrightarrow> a = b"
  by (metis of_char_digit_char add_left_cancel)

lemma digits_String_nat: "digits (String_nat n)"
proof (induction n rule: String_nat.induct)
  case (1 n)
  show ?case
  proof (cases "n < 10")
    case True
    then show ?thesis by (subst String_nat.simps) (auto simp: digits_def)
  next
    case False
    with 1 have "digits (String_nat (n div 10))" by simp
    moreover have "n mod 10 < 10" by simp
    ultimately show ?thesis using False
      by (subst String_nat.simps) (auto simp: digits_def intro: exI [of _ "n mod 10"])
  qed
qed

lemma length_String_nat_small: "n < 10 \<Longrightarrow> String_nat n = [digit_char n]"
  by (subst String_nat.simps) simp

lemma String_nat_step: "10 \<le> n \<Longrightarrow> String_nat n = String_nat (n div 10) @ [digit_char (n mod 10)]"
  by (subst String_nat.simps) simp


lemma replicate_char4:
  "replicate 3 c = [c, c, c]" "replicate 2 c = [c, c]" "replicate (Suc 0) c = [c]"
  by (simp_all add: eval_nat_numeral)

lemma pad4:
  assumes "k < 10000"
  shows "padStart 4 CHR ''0'' (String_nat k) =
    [digit_char (k div 1000), digit_char (k div 100 mod 10), digit_char (k div 10 mod 10), digit_char (k mod 10)]"
proof -
  have z: "digit_char 0 = CHR ''0''" by (simp add: digit_char_def)
  consider "k < 10" | "10 \<le> k" "k < 100" | "100 \<le> k" "k < 1000" | "1000 \<le> k"
    by linarith
  then show ?thesis
  proof cases
    case 1
    then have "String_nat k = [digit_char k]" by (rule length_String_nat_small)
    with 1 show ?thesis by (simp add: padStart_def z replicate_char4)
  next
    case 2
    then have "k div 10 < 10" by simp
    then have "String_nat (k div 10) = [digit_char (k div 10)]" by (rule length_String_nat_small)
    with String_nat_step [of k] 2 have "String_nat k = [digit_char (k div 10), digit_char (k mod 10)]"
      by simp
    moreover have "k div 1000 = 0" "k div 100 = 0" "k div 10 mod 10 = k div 10" using 2 by simp_all
    ultimately show ?thesis by (simp add: padStart_def z replicate_char4)
  next
    case 3
    then have a: "10 \<le> k div 10" "k div 100 < 10" by simp_all
    have b: "k div 10 div 10 = k div 100" by (simp add: div_mult2_eq)
    have "String_nat (k div 100) = [digit_char (k div 100)]" using a by (simp add: length_String_nat_small)
    with String_nat_step [of "k div 10"] a b
    have "String_nat (k div 10) = [digit_char (k div 100), digit_char (k div 10 mod 10)]" by simp
    with String_nat_step [of k] 3
    have "String_nat k = [digit_char (k div 100), digit_char (k div 10 mod 10), digit_char (k mod 10)]"
      by simp
    moreover have "k div 1000 = 0" "k div 100 mod 10 = k div 100" using 3 by simp_all
    ultimately show ?thesis by (simp add: padStart_def z replicate_char4)
  next
    case 4
    with assms have a: "10 \<le> k div 10" "10 \<le> k div 100" "k div 1000 < 10" by simp_all
    have b: "k div 10 div 10 = k div 100" "k div 100 div 10 = k div 1000" by (simp_all add: div_mult2_eq)
    have "String_nat (k div 1000) = [digit_char (k div 1000)]" using a by (simp add: length_String_nat_small)
    with String_nat_step [of "k div 100"] a b
    have "String_nat (k div 100) = [digit_char (k div 1000), digit_char (k div 100 mod 10)]" by simp
    with String_nat_step [of "k div 10"] a b
    have "String_nat (k div 10) = [digit_char (k div 1000), digit_char (k div 100 mod 10), digit_char (k div 10 mod 10)]" by simp
    with String_nat_step [of k] 4
    have "String_nat k = [digit_char (k div 1000), digit_char (k div 100 mod 10), digit_char (k div 10 mod 10), digit_char (k mod 10)]"
      by simp
    then show ?thesis by (simp add: padStart_def)
  qed
qed


lemma lex4:
  fixes a3 :: nat
  assumes "a0 < 10" "a1 < 10" "a2 < 10" "a3 < 10" "b0 < 10" "b1 < 10" "b2 < 10" "b3 < 10"
    and lt: "1000 * a3 + 100 * a2 + 10 * a1 + a0 < 1000 * b3 + 100 * b2 + 10 * b1 + b0"
  shows "a3 < b3 \<or> (a3 = b3 \<and> (a2 < b2 \<or> (a2 = b2 \<and> (a1 < b1 \<or> (a1 = b1 \<and> a0 < b0)))))"
proof -
  have 3: "a3 \<le> b3" using assms by linarith
  have 2: "a3 = b3 \<Longrightarrow> a2 \<le> b2" using assms by linarith
  have 1: "a3 = b3 \<Longrightarrow> a2 = b2 \<Longrightarrow> a1 \<le> b1" using assms by linarith
  have 0: "a3 = b3 \<Longrightarrow> a2 = b2 \<Longrightarrow> a1 = b1 \<Longrightarrow> a0 < b0" using lt by linarith
  from 3 2 1 0 show ?thesis by (metis le_neq_implies_less)
qed

lemma decompose4:
  "(k::nat) = 1000 * (k div 1000) + 100 * (k div 100 mod 10) + 10 * (k div 10 mod 10) + k mod 10"
proof -
  have a: "k = 10 * (k div 10) + k mod 10" by simp
  have b: "k div 10 = 10 * (k div 10 div 10) + k div 10 mod 10"
    by (rule mult_div_mod_eq [symmetric])
  have c: "k div 100 = 10 * (k div 100 div 10) + k div 100 mod 10"
    by (rule mult_div_mod_eq [symmetric])
  have d: "k div 10 div 10 = k div 100" "k div 100 div 10 = k div 1000"
    by (simp_all add: div_mult2_eq)
  from a b c d show ?thesis by linarith
qed


lemma append_less_append: "(xs @ ys :: 'a :: linorder list) < xs @ zs \<longleftrightarrow> ys < zs"
  by (induction xs) simp_all

lemma pad4_less:
  assumes "j < k" "k < 10000"
  shows "padStart 4 CHR ''0'' (String_nat j) < padStart 4 CHR ''0'' (String_nat k)"
proof -
  from assms have j: "j < 10000" by simp
  have bj: "j div 1000 < 10" "j div 100 mod 10 < 10" "j div 10 mod 10 < 10" "j mod 10 < 10"
    using j by simp_all
  have bk: "k div 1000 < 10" "k div 100 mod 10 < 10" "k div 10 mod 10 < 10" "k mod 10 < 10"
    using assms by simp_all
  have "1000 * (j div 1000) + 100 * (j div 100 mod 10) + 10 * (j div 10 mod 10) + j mod 10
      < 1000 * (k div 1000) + 100 * (k div 100 mod 10) + 10 * (k div 10 mod 10) + k mod 10"
    using decompose4 [of j] decompose4 [of k] assms(1) by linarith
  from lex4 [OF bj(4) bj(3) bj(2) bj(1) bk(4) bk(3) bk(2) bk(1) this]
  show ?thesis
    by (simp add: pad4 [OF j] pad4 [OF assms(2)] digit_char_less bj bk digit_char_eq)
qed

lemma sequence_number_less:
  "j < k \<Longrightarrow> k < 10000 \<Longrightarrow> sequence_number now j < sequence_number now k"
  by (simp add: sequence_number_def append_less_append pad4_less)

lemma length_pad4: "k < 10000 \<Longrightarrow> length (padStart 4 CHR ''0'' (String_nat k)) = 4"
  by (simp add: pad4)

lemma String_nat_10000: "String_nat 10000 = ''10000''"
proof -
  have 1: "String_nat 1 = ''1''" by (simp add: length_String_nat_small digit_char_def)
  have 2: "String_nat 10 = ''10''" using String_nat_step [of 10] 1 by (simp add: digit_char_def)
  have 3: "String_nat 100 = ''100''" using String_nat_step [of 100] 2 by (simp add: digit_char_def)
  have 4: "String_nat 1000 = ''1000''" using String_nat_step [of 1000] 3 by (simp add: digit_char_def)
  show ?thesis using String_nat_step [of 10000] 4 by (simp add: digit_char_def)
qed

lemma sequence_number_neq:
  assumes "a < b" "b \<le> 10000"
  shows "sequence_number now a \<noteq> sequence_number now b"
proof (cases "b = 10000")
  case True
  with assms have "length (padStart 4 CHR ''0'' (String_nat a)) = 4" by (simp add: length_pad4)
  moreover have "length (padStart 4 CHR ''0'' (String_nat b)) = 5"
    unfolding True by (simp add: String_nat_10000 padStart_def)
  ultimately have "length (padStart 4 CHR ''0'' (String_nat a))
      \<noteq> length (padStart 4 CHR ''0'' (String_nat b))"
    by simp
  then have "padStart 4 CHR ''0'' (String_nat a) \<noteq> padStart 4 CHR ''0'' (String_nat b)"
    by (rule contrapos_nn) (rule arg_cong)
  then show ?thesis by (simp add: sequence_number_def)
next
  case False
  with assms have "sequence_number now a < sequence_number now b"
    by (simp add: sequence_number_less)
  then show ?thesis by (rule less_imp_neq)
qed

lemma sequence_number_inj:
  assumes "j \<le> 10000" "k \<le> 10000" "sequence_number now j = sequence_number now k"
  shows "j = k"
proof (rule ccontr)
  assume "j \<noteq> k"
  then consider "j < k" | "k < j" by linarith
  then show False
  proof cases
    case 1
    from sequence_number_neq [OF 1 assms(2)] assms(3) show False by (rule notE)
  next
    case 2
    from sequence_number_neq [OF 2 assms(1)] assms(3) [symmetric] show False by (rule notE)
  qed
qed

lemma split_no_sep: "c \<notin> set a \<Longrightarrow> split c a = [a]"
  by (induction a) (simp_all add: eq_commute [of c])

lemma split_append: "c \<notin> set a \<Longrightarrow> split c (a @ c # b) = a # split c b"
  by (induction a) (simp_all add: eq_commute [of c])

lemma digits_no_dash:
  assumes "digits s"
  shows "CHR ''-'' \<notin> set s"
proof
  assume "CHR ''-'' \<in> set s"
  with assms obtain d where "d < 10" "CHR ''-'' = digit_char d"
    unfolding digits_def by auto
  with digit_char_not_special [of d] show False by simp
qed

lemma digits_padStart:
  assumes "digits s"
  shows "digits (padStart n CHR ''0'' s)"
  unfolding digits_def
proof
  fix c
  assume "c \<in> set (padStart n CHR ''0'' s)"
  then consider "c = CHR ''0''" | "c \<in> set s" by (auto simp: padStart_def)
  then show "\<exists>d<10. c = digit_char d"
  proof cases
    case 1
    then have "c = digit_char 0" by (simp add: digit_char_def)
    then show ?thesis by (intro exI [of _ 0]) simp
  next
    case 2
    with assms show ?thesis unfolding digits_def by simp
  qed
qed


lemma digits_pad_String_nat: "digits (padStart n CHR ''0'' (String_nat k))"
  by (rule digits_padStart) (rule digits_String_nat)

lemma invoice_prefix_parts:
  "invoice_prefix now @ ''-'' @ sq =
     ''INV'' @ CHR ''-'' # (String_nat (getFullYear now) @ CHR ''-'' #
       (padStart 2 CHR ''0'' (String_nat (getMonth now + 1)) @ CHR ''-'' # sq))"
  unfolding invoice_prefix_def by simp

lemma split4:
  assumes "c \<notin> set a" "c \<notin> set b" "c \<notin> set d" "c \<notin> set e"
  shows "split c (a @ c # (b @ c # (d @ c # e))) = [a, b, d, e]"
  by (simp only: split_append [OF assms(1)] split_append [OF assms(2)]
      split_append [OF assms(3)] split_no_sep [OF assms(4)])

lemma dash_not_in_INV: "CHR ''-'' \<notin> set ''INV''"
  by simp

lemma index_at_3: "index_at [a, b, c, d] 3 = Some d"
  by (simp add: index_at_def)

lemma split_sequence:
  assumes "digits sq"
  shows "index_at (split CHR ''-'' (invoice_prefix now @ ''-'' @ sq)) 3 = Some sq"
proof -
  have y: "CHR ''-'' \<notin> set (String_nat (getFullYear now))"
    by (rule digits_no_dash) (rule digits_String_nat)
  have m: "CHR ''-'' \<notin> set (padStart 2 CHR ''0'' (String_nat (getMonth now + 1)))"
    by (rule digits_no_dash) (rule digits_pad_String_nat)
  have q: "CHR ''-'' \<notin> set sq" using assms by (rule digits_no_dash)
  show ?thesis
    unfolding invoice_prefix_parts split4 [OF dash_not_in_INV y m q] by (rule index_at_3)
qed

lemma parseInt_pad4:
  assumes "k < 10000"
  shows "parseInt (padStart 4 CHR ''0'' (String_nat k)) = Some (int k)"
proof -
  let ?d3 = "k div 1000" and ?d2 = "k div 100 mod 10" and ?d1 = "k div 10 mod 10" and ?d0 = "k mod 10"
  have b: "?d3 < 10" "?d2 < 10" "?d1 < 10" "?d0 < 10" using assms by simp_all
  note sp = digit_char_not_special [OF b(1)] digit_char_not_special [OF b(2)]
  note dg = digit_of_digit_char [OF b(1)] digit_of_digit_char [OF b(2)]
    digit_of_digit_char [OF b(3)] digit_of_digit_char [OF b(4)]
  have "parseInt [digit_char ?d3, digit_char ?d2, digit_char ?d1, digit_char ?d0]
      = Some (((int ?d3 * 10 + int ?d2) * 10 + int ?d1) * 10 + int ?d0)"
    using sp dg by (simp add: parseInt_def digits_value_def)
  also have "((int ?d3 * 10 + int ?d2) * 10 + int ?d1) * 10 + int ?d0 = int k"
  proof -
    have "int k = int (1000 * ?d3 + 100 * ?d2 + 10 * ?d1 + ?d0)"
      by (rule arg_cong [OF decompose4])
    also have "\<dots> = ((int ?d3 * 10 + int ?d2) * 10 + int ?d1) * 10 + int ?d0"
      by simp
    finally show ?thesis by (rule sym)
  qed
  finally show ?thesis unfolding pad4 [OF assms] .
qed

lemma foldl_latest:
  fixes x :: invoice
  defines "f \<equiv> (\<lambda>best i. if invoiceNumber best < invoiceNumber i then i else best)"
  shows "foldl f x xs \<in> set (x # xs) \<and> (\<forall>y\<in>set (x # xs). invoiceNumber y \<le> invoiceNumber (foldl f x xs))"
proof (induction xs arbitrary: x)
  case Nil
  show ?case by simp
next
  case (Cons a xs)
  have le: "invoiceNumber x \<le> invoiceNumber (f x a)" "invoiceNumber a \<le> invoiceNumber (f x a)"
    by (simp_all add: f_def less_imp_le not_less)
  have mem: "f x a = x \<or> f x a = a" by (simp add: f_def)
  from Cons [of "f x a"] have
    1: "foldl f (f x a) xs \<in> set (f x a # xs)" and
    2: "\<forall>y\<in>set (f x a # xs). invoiceNumber y \<le> invoiceNumber (foldl f (f x a) xs)"
    by simp_all
  from 2 have 3: "invoiceNumber (f x a) \<le> invoiceNumber (foldl f (f x a) xs)" by simp
  have "foldl f x (a # xs) \<in> set (x # a # xs)" using 1 mem by auto
  moreover have "\<forall>y\<in>set (x # a # xs). invoiceNumber y \<le> invoiceNumber (foldl f x (a # xs))"
  proof
    fix y
    assume "y \<in> set (x # a # xs)"
    then consider "y = x" | "y = a" | "y \<in> set xs" by auto
    then show "invoiceNumber y \<le> invoiceNumber (foldl f x (a # xs))"
    proof cases
      case 1
      with le(1) 3 show ?thesis by (simp add: order_trans [OF le(1) 3])
    next
      case 2
      with le(2) 3 show ?thesis by (simp add: order_trans [OF le(2) 3])
    next
      case 3
      with 2 show ?thesis by simp
    qed
  qed
  ultimately show ?case by (rule conjI)
qed


lemma findLatest_None:
  "findLatest uid p store = None \<longleftrightarrow>
     (\<forall>e\<in>set store. \<not> (userId e = uid \<and> startsWith p (invoiceNumber e)))"
proof (cases "filter (\<lambda>i. userId i = uid \<and> startsWith p (invoiceNumber i)) store")
  case Nil
  then show ?thesis by (simp add: findLatest_def filter_empty_conv)
next
  case (Cons x xs)
  then have "x \<in> set (filter (\<lambda>i. userId i = uid \<and> startsWith p (invoiceNumber i)) store)"
    by simp
  then have "x \<in> set store" "userId x = uid \<and> startsWith p (invoiceNumber x)" by simp_all
  then have "\<not> (\<forall>e\<in>set store. \<not> (userId e = uid \<and> startsWith p (invoiceNumber e)))"
    by blast
  with Cons show ?thesis by (simp add: findLatest_def)
qed

lemma findLatest_Some:
  assumes "findLatest uid p store = Some m"
  shows "m \<in> set store \<and> userId m = uid \<and> startsWith p (invoiceNumber m)
     \<and> (\<forall>e\<in>set store. userId e = uid \<and> startsWith p (invoiceNumber e)
            \<longrightarrow> invoiceNumber e \<le> invoiceNumber m)"
proof -
  let ?P = "\<lambda>i. userId i = uid \<and> startsWith p (invoiceNumber i)"
  let ?f = "\<lambda>best i. if invoiceNumber best < invoiceNumber i then i else best"
  from assms obtain x xs where fx: "filter ?P store = x # xs" and m: "m = foldl ?f x xs"
    by (auto simp: findLatest_def split: list.splits)
  from foldl_latest [of x xs] m have
    mem: "m \<in> set (x # xs)" and le: "\<forall>y\<in>set (x # xs). invoiceNumber y \<le> invoiceNumber m"
    by simp_all
  have set_eq: "set (x # xs) = {e \<in> set store. ?P e}"
    unfolding fx [symmetric] by simp
  from mem set_eq have "m \<in> set store" "?P m" by blast+
  moreover from le set_eq have "\<forall>e\<in>set store. ?P e \<longrightarrow> invoiceNumber e \<le> invoiceNumber m"
    by blast
  ultimately show ?thesis by blast
qed

lemma startsWith_append: "startsWith p (p @ s)"
  by (simp add: startsWith_def)

lemma startsWith_sequence_number: "startsWith (invoice_prefix now) (sequence_number now k)"
  unfolding sequence_number_def by (rule startsWith_append)

lemma pad4_one: "padStart 4 CHR ''0'' (String_nat 1) = ''0001''"
  by (simp add: length_String_nat_small padStart_def digit_char_def replicate_char4)

lemma pad4_Suc0: "padStart 4 CHR ''0'' (String_nat (Suc 0)) = ''0001''"
  using pad4_one by simp

lemma generate_no_prior:
  assumes "\<forall>e\<in>set store. \<not> (userId e = uid \<and> startsWith (invoice_prefix now) (invoiceNumber e))"
  shows "generateInvoiceNumber uid now store = invoice_prefix now @ ''-0001''"
proof -
  from assms have "findLatest uid (invoice_prefix now) store = None"
    by (simp only: findLatest_None)
  then show ?thesis
    by (simp add: generateInvoiceNumber_def String_number_def pad4_Suc0)
qed

lemma sequence_number_one: "sequence_number now 1 = invoice_prefix now @ ''-0001''"
  by (simp add: sequence_number_def pad4_Suc0)

lemma generate_next:
  assumes k: "1 \<le> k" "k \<le> 9999"
    and all: "\<forall>e\<in>set store. userId e = uid \<and> startsWith (invoice_prefix now) (invoiceNumber e)
                \<longrightarrow> (\<exists>j. 1 \<le> j \<and> j \<le> k \<and> invoiceNumber e = sequence_number now j)"
    and ex: "\<exists>e\<in>set store. userId e = uid \<and> invoiceNumber e = sequence_number now k"
  shows "generateInvoiceNumber uid now store = sequence_number now (k + 1)"
proof -
  let ?p = "invoice_prefix now"
  from ex obtain e where e: "e \<in> set store" "userId e = uid" "invoiceNumber e = sequence_number now k"
    by blast
  then have "\<not> (\<forall>e\<in>set store. \<not> (userId e = uid \<and> startsWith ?p (invoiceNumber e)))"
    using startsWith_sequence_number [of now k] by auto
  then obtain m where m: "findLatest uid ?p store = Some m"
    using findLatest_None [of uid ?p store] by (cases "findLatest uid ?p store") auto
  note fm = findLatest_Some [OF m]
  from fm all obtain j where j: "1 \<le> j" "j \<le> k" "invoiceNumber m = sequence_number now j"
    by blast
  from fm e have le: "sequence_number now k \<le> invoiceNumber m"
    using startsWith_sequence_number [of now k] by (metis)
  have "j = k"
  proof (rule ccontr)
    assume "j \<noteq> k"
    with j have "j < k" by simp
    with k have "sequence_number now j < sequence_number now k"
      by (simp add: sequence_number_less)
    with le j(3) show False by simp
  qed
  with j have num: "invoiceNumber m = ?p @ ''-'' @ padStart 4 CHR ''0'' (String_nat k)"
    by (simp add: sequence_number_def)
  have kk: "k < 10000" using k by simp
  have "index_at (split CHR ''-'' (invoiceNumber m)) 3 = Some (padStart 4 CHR ''0'' (String_nat k))"
    unfolding num by (rule split_sequence) (rule digits_pad_String_nat)
  then have "parseInt_value (index_at (split CHR ''-'' (invoiceNumber m)) 3) = Some (int k)"
    by (simp add: parseInt_value_def parseInt_pad4 [OF kk])
  moreover have "String_number (Some (int k + 1)) = String_nat (k + 1)"
    by (simp add: String_number_def nat_add_distrib)
  ultimately show ?thesis
    by (simp add: generateInvoiceNumber_def m sequence_number_def)
qed


lemma pre_save_totals_eq:
  "pre_save_totals doc =
     doc\<lparr>items := map (\<lambda>it. it\<lparr>amount := quantity it * rate it\<rparr>) (items doc),
         subtotal := raw_subtotal (items doc),
         taxAmount := raw_subtotal (items doc) * taxRate doc / 100,
         discountAmount := raw_subtotal (items doc) * discountRate doc / 100,
         total := raw_subtotal (items doc) + raw_subtotal (items doc) * taxRate doc / 100
                    - raw_subtotal (items doc) * discountRate doc / 100\<rparr>"
  by (simp add: pre_save_totals_def reduce_hook_callback Let_def)

lemma pre_save_totals_frame:
  "oid (pre_save_totals doc) = oid doc" "userId (pre_save_totals doc) = userId doc"
  "customerId (pre_save_totals doc) = customerId doc"
  "invoiceNumber (pre_save_totals doc) = invoiceNumber doc"
  "status (pre_save_totals doc) = status doc" "paidDate (pre_save_totals doc) = paidDate doc"
  "dueDate (pre_save_totals doc) = dueDate doc" "currency (pre_save_totals doc) = currency doc"
  "invoice_notes (pre_save_totals doc) = invoice_notes doc" "terms (pre_save_totals doc) = terms doc"
  "taxRate (pre_save_totals doc) = taxRate doc" "discountRate (pre_save_totals doc) = discountRate doc"
  by (simp_all add: pre_save_totals_eq)

lemma pre_save_status_frame:
  "oid (pre_save_status now doc) = oid doc" "userId (pre_save_status now doc) = userId doc"
  "customerId (pre_save_status now doc) = customerId doc"
  "invoiceNumber (pre_save_status now doc) = invoiceNumber doc"
  "items (pre_save_status now doc) = items doc" "subtotal (pre_save_status now doc) = subtotal doc"
  "taxRate (pre_save_status now doc) = taxRate doc" "taxAmount (pre_save_status now doc) = taxAmount doc"
  "discountRate (pre_save_status now doc) = discountRate doc"
  "discountAmount (pre_save_status now doc) = discountAmount doc"
  "total (pre_save_status now doc) = total doc" "currency (pre_save_status now doc) = currency doc"
  "dueDate (pre_save_status now doc) = dueDate doc"
  "invoice_notes (pre_save_status now doc) = invoice_notes doc" "terms (pre_save_status now doc) = terms doc"
  by (simp_all add: pre_save_status_def)

lemma pre_save_key:
  "invoiceNumber (pre_save now doc) = invoiceNumber doc" "userId (pre_save now doc) = userId doc"
  "oid (pre_save now doc) = oid doc"
  by (simp_all add: pre_save_def pre_save_status_frame pre_save_totals_frame)

lemma save_new_ok:
  assumes "validate_invoice doc" "\<forall>e\<in>set store. invoiceNumber e \<noteq> invoiceNumber doc"
  shows "save_new now doc store = Inr (pre_save now doc, store @ [pre_save now doc])"
  using assms
  by (auto simp: save_new_def Let_def unique_invoiceNumber_def unique_userId_invoiceNumber_def
      pre_save_key list_all_iff)

lemma save_new_duplicate:
  assumes "validate_invoice doc" "e \<in> set store" "invoiceNumber e = invoiceNumber doc"
  shows "save_new now doc store = Inl DuplicateKey"
  using assms
  by (auto simp: save_new_def Let_def unique_invoiceNumber_def pre_save_key list_all_iff)

lemma save_new_rejects:
  assumes "e \<in> set store" "invoiceNumber e = invoiceNumber doc"
  shows "save_new now doc store = Inl ValidationError \<or> save_new now doc store = Inl DuplicateKey"
  using assms save_new_duplicate [of doc e store now]
  by (cases "validate_invoice doc") (simp_all add: save_new_def)

lemma save_new_Inr:
  assumes "save_new now doc store = Inr (doc', store')"
  shows "validate_invoice doc \<and> doc' = pre_save now doc \<and> store' = store @ [doc']
     \<and> (\<forall>e\<in>set store. invoiceNumber e \<noteq> invoiceNumber doc)"
  using assms
  by (auto simp: save_new_def Let_def unique_invoiceNumber_def pre_save_key list_all_iff
      split: if_splits)


lemma raw_subtotal_nonneg:
  assumes "\<forall>it\<in>set its. 0 \<le> quantity it \<and> 0 \<le> rate it"
  shows "0 \<le> raw_subtotal its"
  unfolding raw_subtotal_def using assms by (intro sum_list_nonneg) auto

lemma round_cents_ge_0: "0 \<le> x \<Longrightarrow> 0 \<le> round_cents x"
  by (simp add: round_cents_def Math_round_def)

lemma calculateInvoiceTotals_eq:
  "calculateInvoiceTotals its t d =
     (\<lparr>totals_subtotal = round_cents (raw_subtotal its),
       totals_taxAmount = round_cents (raw_subtotal its * t / 100),
       totals_discountAmount = round_cents (raw_subtotal its * d / 100),
       totals_total = round_cents (raw_subtotal its + raw_subtotal its * t / 100
                                     - raw_subtotal its * d / 100)\<rparr>, its)"
  by (simp add: calculateInvoiceTotals_def reduce_totals_callback Let_def)

lemma createInvoice_document_eq:
  "createInvoice_document uid req now num i =
     \<lparr>oid = i, userId = uid, customerId = req_customerId req,
      invoiceNumber = num, status = Draft,
      items = map (\<lambda>item. item\<lparr>amount := quantity item * rate item\<rparr>) (req_items req),
      subtotal = round_cents (raw_subtotal (req_items req)),
      taxRate = rate_or_zero (req_taxRate req),
      taxAmount = round_cents (raw_subtotal (req_items req) * rate_or_zero (req_taxRate req) / 100),
      discountRate = rate_or_zero (req_discountRate req),
      discountAmount = round_cents (raw_subtotal (req_items req) * rate_or_zero (req_discountRate req) / 100),
      total = round_cents (raw_subtotal (req_items req)
                + raw_subtotal (req_items req) * rate_or_zero (req_taxRate req) / 100
                - raw_subtotal (req_items req) * rate_or_zero (req_discountRate req) / 100),
      currency = (case req_currency req of None \<Rightarrow> ''USD'' | Some c \<Rightarrow> c),
      issueDate = getTime now, dueDate = req_dueDate req, paidDate = None,
      invoice_notes = req_notes req, terms = req_terms req,
      template = Default, pdfPath = None\<rparr>"
  by (simp add: createInvoice_document_def calculateInvoiceTotals_eq Let_def rate_or_zero_def)

lemma percent_bounds:
  "optional_percent v \<Longrightarrow> 0 \<le> rate_or_zero v \<and> rate_or_zero v \<le> 100"
  by (cases v) (simp_all add: optional_percent_def rate_or_zero_def)

lemma total_nonneg:
  fixes s t d :: rat
  assumes "0 \<le> s" "0 \<le> t" "d \<le> 100"
  shows "0 \<le> s + s * t / 100 - s * d / 100"
proof -
  have "s * d \<le> s * 100" using assms by (intro mult_left_mono) simp_all
  then have "s * d / 100 \<le> s" by simp
  moreover have "0 \<le> s * t / 100" using assms by simp
  ultimately show ?thesis by linarith
qed

lemma valid_document:
  assumes v: "invoiceValidation req"
    and q: "\<forall>it\<in>set (req_items req). 1 / 100 \<le> quantity it"
    and n: "num \<noteq> []"
  shows "validate_invoice (createInvoice_document uid req now num i)"
proof -
  let ?its = "req_items req"
  from v have items: "?its \<noteq> []"
    and each: "\<forall>it\<in>set ?its. description it \<noteq> [] \<and> length (description it) \<le> 200
                 \<and> 0 < quantity it \<and> 0 \<le> rate it"
    and tax: "optional_percent (req_taxRate req)" and disc: "optional_percent (req_discountRate req)"
    and cur: "case req_currency req of None \<Rightarrow> True | Some c \<Rightarrow> length c = 3"
    and nt: "optional_maxlength 1000 (req_notes req)" "optional_maxlength 1000 (req_terms req)"
    by (auto simp: invoiceValidation_def list_all_iff)
  have sub: "0 \<le> raw_subtotal ?its"
    using each by (intro raw_subtotal_nonneg) (auto intro: less_imp_le)
  note tb = percent_bounds [OF tax] and db = percent_bounds [OF disc]
  have "list_all validate_item (map (\<lambda>item. item\<lparr>amount := quantity item * rate item\<rparr>) ?its)"
    using each q by (auto simp: list_all_iff validate_item_def intro: less_imp_le)
  moreover have "0 \<le> round_cents (raw_subtotal ?its * rate_or_zero (req_taxRate req) / 100)"
    using sub tb by (intro round_cents_ge_0) simp
  moreover have "0 \<le> round_cents (raw_subtotal ?its * rate_or_zero (req_discountRate req) / 100)"
    using sub db by (intro round_cents_ge_0) simp
  moreover have "0 \<le> round_cents (raw_subtotal ?its
                + raw_subtotal ?its * rate_or_zero (req_taxRate req) / 100
                - raw_subtotal ?its * rate_or_zero (req_discountRate req) / 100)"
    using sub tb db by (intro round_cents_ge_0 total_nonneg) simp_all
  moreover have "(case req_currency req of None \<Rightarrow> ''USD'' | Some c \<Rightarrow> c) \<noteq> []"
    "length (case req_currency req of None \<Rightarrow> ''USD'' | Some c \<Rightarrow> c) \<le> 3"
    using cur by (auto split: option.splits)
  ultimately show ?thesis
    using items n nt tb db sub
    by (simp add: validate_invoice_def createInvoice_document_eq round_cents_ge_0)
qed


lemma same_month_prefix: "same_month a b \<Longrightarrow> invoice_prefix b = invoice_prefix a"
  by (simp add: same_month_def invoice_prefix_def)

lemma same_month_sequence: "same_month a b \<Longrightarrow> sequence_number b k = sequence_number a k"
  by (simp add: sequence_number_def same_month_prefix)

lemma generate_nonempty: "generateInvoiceNumber uid now store \<noteq> []"
  by (simp add: generateInvoiceNumber_def Let_def invoice_prefix_def)

lemma createInvoice_fresh:
  assumes "invoiceValidation req" "\<forall>it\<in>set (req_items req). 1 / 100 \<le> quantity it"
    and "\<forall>e\<in>set store. invoiceNumber e \<noteq> generateInvoiceNumber uid now store"
  shows "\<exists>doc. createInvoice uid req now store = Inr (doc, store @ [doc])
           \<and> invoiceNumber doc = generateInvoiceNumber uid now store \<and> userId doc = uid"
proof -
  let ?num = "generateInvoiceNumber uid now store"
  let ?d = "createInvoice_document uid req now ?num (fresh_oid store)"
  have v: "validate_invoice ?d"
    using assms(1,2) generate_nonempty by (rule valid_document)
  have n: "invoiceNumber ?d = ?num" "userId ?d = uid"
    by (simp_all add: createInvoice_document_eq)
  from assms(3) n have "\<forall>e\<in>set store. invoiceNumber e \<noteq> invoiceNumber ?d" by simp
  from save_new_ok [OF v this, of now]
  have "createInvoice uid req now store = Inr (pre_save now ?d, store @ [pre_save now ?d])"
    using assms(1) by (simp add: createInvoice_def Let_def)
  moreover have "invoiceNumber (pre_save now ?d) = ?num" "userId (pre_save now ?d) = uid"
    using n by (simp_all add: pre_save_key)
  ultimately show ?thesis by blast
qed

lemma createInvoice_duplicate:
  assumes "invoiceValidation req" "\<forall>it\<in>set (req_items req). 1 / 100 \<le> quantity it"
    and "e \<in> set store" "invoiceNumber e = generateInvoiceNumber uid now store"
  shows "createInvoice uid req now store = Inl (ServerError DuplicateKey)"
proof -
  let ?num = "generateInvoiceNumber uid now store"
  let ?d = "createInvoice_document uid req now ?num (fresh_oid store)"
  have v: "validate_invoice ?d"
    using assms(1,2) generate_nonempty by (rule valid_document)
  have "invoiceNumber e = invoiceNumber ?d"
    using assms(4) by (simp add: createInvoice_document_eq)
  from save_new_duplicate [OF v assms(3) this, of now] assms(1)
  show ?thesis by (simp add: createInvoice_def Let_def)
qed

lemma post_invoices_accepted:
  assumes "checkInvoiceLimit u" "invoiceValidation req"
    and "findCustomer cs (req_customerId req) (user_oid u) \<noteq> None"
  shows "post_invoices u cs req now store =
     (case createInvoice (user_oid u) req now store of
        Inl e \<Rightarrow> Inl e
      | Inr (doc, store') \<Rightarrow> Inr (doc, store', u\<lparr>invoiceCount := invoiceCount u + 1\<rparr>))"
  using assms by (auto simp: post_invoices_def)

lemma within_limit_step:
  assumes "within_limit u (Suc n)"
  shows "checkInvoiceLimit u" and "within_limit (u\<lparr>invoiceCount := invoiceCount u + 1\<rparr>) n"
  using assms by (auto simp: within_limit_def checkInvoiceLimit_def)

text \<open>
  Requests of one owner that follow an unbroken run of the month's numbers. Let the
  invoices that carry the month's prefix all belong to the owner and have sequences
  between 1 and \<open>k\<close>, the sequence \<open>k\<close> among them when \<open>k\<close> is not 0. Then \<open>N\<close>
  accepted requests of the owner in that month, within the limit of the plan, are
  answered with invoices numbered \<open>k + 1, \<dots>, k + N\<close>, as long as \<open>k + N \<le> 10000\<close>.
\<close>

lemma cycles_from:
  assumes "list_all (cycle_ok uid cs now) reqs"
    and "user_oid u = uid" "within_limit u (length reqs)"
    and "k + length reqs \<le> 10000"
    and "\<forall>e\<in>set store. startsWith (invoice_prefix now) (invoiceNumber e)
            \<longrightarrow> userId e = uid \<and> (\<exists>j. 1 \<le> j \<and> j \<le> k \<and> invoiceNumber e = sequence_number now j)"
    and "1 \<le> k \<longrightarrow> (\<exists>e\<in>set store. userId e = uid \<and> invoiceNumber e = sequence_number now k)"
  shows "fst (request_cycles u cs reqs store)
           = map (\<lambda>j. Inr (sequence_number now j)) [k + 1 ..< k + 1 + length reqs]"
  using assms
proof (induction reqs arbitrary: k store u)
  case Nil
  show ?case by simp
next
  case (Cons c rest)
  obtain n r where c: "c = (n, r)" by (cases c)
  from Cons.prems(1) c have sm: "same_month now n" and v: "invoiceValidation r"
    and cu: "findCustomer cs (req_customerId r) uid \<noteq> None"
    and q: "\<forall>it\<in>set (req_items r). 1 / 100 \<le> quantity it"
    and rest: "list_all (cycle_ok uid cs now) rest"
    by (simp_all add: cycle_ok_def list_all_iff)
  from Cons.prems(3) have wl: "within_limit u (Suc (length rest))" by simp
  note lim = within_limit_step [OF wl]
  from Cons.prems(4) have k: "k \<le> 9999" and bound: "(k + 1) + length rest \<le> 10000" by simp_all
  note pre = same_month_prefix [OF sm] and sq = same_month_sequence [OF sm]
  have gen: "generateInvoiceNumber uid n store = sequence_number now (k + 1)"
  proof (cases "k = 0")
    case True
    with Cons.prems(5) have "\<forall>e\<in>set store. \<not> (userId e = uid \<and> startsWith (invoice_prefix n) (invoiceNumber e))"
      unfolding pre by fastforce
    from generate_no_prior [OF this] have "generateInvoiceNumber uid n store = sequence_number now 1"
      unfolding sequence_number_one pre .
    with True show ?thesis by simp
  next
    case False
    then have k1: "1 \<le> k" by simp
    have a: "\<forall>e\<in>set store. userId e = uid \<and> startsWith (invoice_prefix n) (invoiceNumber e)
                \<longrightarrow> (\<exists>j. 1 \<le> j \<and> j \<le> k \<and> invoiceNumber e = sequence_number n j)"
      using Cons.prems(5) unfolding pre sq by blast
    have b: "\<exists>e\<in>set store. userId e = uid \<and> invoiceNumber e = sequence_number n k"
      using Cons.prems(6) k1 unfolding sq by blast
    from generate_next [OF k1 k a b] show ?thesis unfolding sq .
  qed
  have fresh: "\<forall>e\<in>set store. invoiceNumber e \<noteq> generateInvoiceNumber uid n store"
  proof
    fix e
    assume e: "e \<in> set store"
    show "invoiceNumber e \<noteq> generateInvoiceNumber uid n store"
    proof
      assume eq: "invoiceNumber e = generateInvoiceNumber uid n store"
      then have "startsWith (invoice_prefix now) (invoiceNumber e)"
        unfolding gen by (simp add: startsWith_sequence_number)
      with Cons.prems(5) e obtain j where j: "1 \<le> j" "j \<le> k" "invoiceNumber e = sequence_number now j"
        by blast
      from j(3) eq gen have "sequence_number now j = sequence_number now (k + 1)" by simp
      from sequence_number_inj [OF _ _ this] j k show False by simp
    qed
  qed
  from createInvoice_fresh [OF v q fresh] obtain doc where
    doc: "createInvoice uid r n store = Inr (doc, store @ [doc])"
      "invoiceNumber doc = sequence_number now (k + 1)" "userId doc = uid"
    unfolding gen by blast
  let ?u' = "u\<lparr>invoiceCount := invoiceCount u + 1\<rparr>"
  have post: "post_invoices u cs r n store = Inr (doc, store @ [doc], ?u')"
    using post_invoices_accepted [of u r cs n store] lim(1) v cu doc(1) Cons.prems(2) by simp
  have all': "\<forall>e\<in>set (store @ [doc]). startsWith (invoice_prefix now) (invoiceNumber e)
            \<longrightarrow> userId e = uid \<and> (\<exists>j. 1 \<le> j \<and> j \<le> k + 1 \<and> invoiceNumber e = sequence_number now j)"
  proof
    fix e
    assume "e \<in> set (store @ [doc])"
    then consider "e \<in> set store" | "e = doc" by auto
    then show "startsWith (invoice_prefix now) (invoiceNumber e)
            \<longrightarrow> userId e = uid \<and> (\<exists>j. 1 \<le> j \<and> j \<le> k + 1 \<and> invoiceNumber e = sequence_number now j)"
    proof cases
      case 1
      with Cons.prems(5) show ?thesis by (meson le_SucI Suc_eq_plus1 trans_le_add1)
    next
      case 2
      with doc show ?thesis by (intro impI conjI exI [of _ "k + 1"]) simp_all
    qed
  qed
  have ex': "1 \<le> k + 1 \<longrightarrow> (\<exists>e\<in>set (store @ [doc]). userId e = uid \<and> invoiceNumber e = sequence_number now (k + 1))"
    using doc by simp
  have u': "user_oid ?u' = uid" using Cons.prems(2) by simp
  from Cons.IH [OF rest u' lim(2) bound all' ex']
  have ih: "fst (request_cycles ?u' cs rest (store @ [doc]))
      = map (\<lambda>j. Inr (sequence_number now j)) [k + 1 + 1 ..< k + 1 + 1 + length rest]" .
  have e1: "Suc (k + 1) = k + 1 + 1" and e2: "k + 1 + length (c # rest) = k + 1 + 1 + length rest"
    by simp_all
  have "[k + 1 ..< k + 1 + length (c # rest)] = (k + 1) # [Suc (k + 1) ..< k + 1 + length (c # rest)]"
    by (rule upt_conv_Cons) simp
  then have u: "[k + 1 ..< k + 1 + length (c # rest)] = (k + 1) # [k + 1 + 1 ..< k + 1 + 1 + length rest]"
    unfolding e1 e2 .
  have "fst (request_cycles u cs (c # rest) store)
      = Inr (sequence_number now (k + 1)) # fst (request_cycles ?u' cs rest (store @ [doc]))"
    using doc(2) by (simp add: c post split: prod.split)
  then show ?case unfolding u ih by simp
qed

section \<open>Claims on the totals calculator\<close>

text \<open>
  C9. For the items \<open>[{quantity: 1, rate: 2500}, {quantity: 10, rate: 150}]\<close> with
  \<open>taxRate = 8.25\<close> and \<open>discountRate = 5\<close>, \<open>calculateInvoiceTotals\<close> returns
  \<open>subtotal = 4000.00\<close>, \<open>taxAmount = 330.00\<close>, \<open>discountAmount = 200.00\<close> and
  \<open>total = 4130.00\<close>.
\<close>

theorem C9_example_totals:
  "fst (calculateInvoiceTotals
          [\<lparr>description = ''Website Development'', quantity = 1, rate = 2500, amount = 0\<rparr>,
           \<lparr>description = ''SEO Optimization'', quantity = 10, rate = 150, amount = 0\<rparr>]
          (825 / 100) 5)
   = \<lparr>totals_subtotal = 4000, totals_taxAmount = 330,
      totals_discountAmount = 200, totals_total = 4130\<rparr>"
  by (simp add: calculateInvoiceTotals_def totals_callback_def round_cents_def
      Math_round_def floor_rat_numeral)

text \<open>
  C10. The totals calculator is deterministic and idempotent and mutates no input:
  the item array leaves the call as it entered it, so a second call, made on the
  array the first call left behind, returns the same totals and again leaves the
  array unchanged.
\<close>

theorem C10_totals_pure:
  "snd (calculateInvoiceTotals its t d) = its
   \<and> calculateInvoiceTotals (snd (calculateInvoiceTotals its t d)) t d
       = calculateInvoiceTotals its t d"
  by (simp add: calculateInvoiceTotals_def reduce_totals_callback Let_def)

section \<open>Claims on the save-time status rules\<close>

lemma pre_save_status_cases:
  "status (pre_save_status now doc) =
     (if paidDate doc \<noteq> None then (if status doc \<noteq> Paid then Paid else status doc)
      else if status doc = Paid then Paid
      else if dueDate doc < getTime now \<and> status doc = Sent then Overdue
      else status doc)"
  "paidDate (pre_save_status now doc) = paidDate doc"
  by (auto simp: pre_save_status_def)

lemma pre_save_status_of:
  "status (pre_save now doc) =
     (if paidDate doc \<noteq> None \<or> status doc = Paid then Paid
      else if dueDate doc < getTime now \<and> status doc = Sent then Overdue
      else status doc)"
  "paidDate (pre_save now doc) = paidDate doc"
  by (auto simp: pre_save_def pre_save_status_cases pre_save_totals_frame)

text \<open>
  C7. An invoice saved with status \<open>sent\<close>, no paid date and a due date strictly
  before the current time leaves the hooks with status \<open>overdue\<close>; an invoice that
  enters with another status than \<open>sent\<close> or with a paid date, and is not \<open>overdue\<close>
  already, does not leave them \<open>overdue\<close>. The order of the three rules is that of
  the \<open>if\<close> / \<open>else if\<close> chain of \<open>pre_save_status\<close>.
\<close>

theorem C7_overdue_rule:
  "(status doc = Sent \<and> paidDate doc = None \<and> dueDate doc < getTime now
      \<longrightarrow> status (pre_save now doc) = Overdue)
   \<and> ((status doc \<noteq> Sent \<or> paidDate doc \<noteq> None) \<and> status doc \<noteq> Overdue
      \<longrightarrow> status (pre_save now doc) \<noteq> Overdue)"
  by (auto simp: pre_save_status_of)

text \<open>A sent invoice past its due date, once without and once with a paid date.\<close>

theorem C7_overdue_rule_witness:
  "dueDate ((example_invoice 1 1 ''INV-2025-08-0001'')\<lparr>status := Sent, dueDate := 1756000000000\<rparr>)
     < getTime example_now
   \<and> status (pre_save example_now ((example_invoice 1 1 ''INV-2025-08-0001'')
             \<lparr>status := Sent, dueDate := 1756000000000\<rparr>)) = Overdue
   \<and> status (pre_save example_now ((example_invoice 1 1 ''INV-2025-08-0001'')
             \<lparr>status := Sent, dueDate := 1756000000000, paidDate := Some 1756500000000\<rparr>)) \<noteq> Overdue"
proof -
  let ?d1 = "(example_invoice 1 1 ''INV-2025-08-0001'')\<lparr>status := Sent, dueDate := 1756000000000\<rparr>"
  let ?d2 = "(example_invoice 1 1 ''INV-2025-08-0001'')
             \<lparr>status := Sent, dueDate := 1756000000000, paidDate := Some 1756500000000\<rparr>"
  have h1: "status ?d1 = Sent \<and> paidDate ?d1 = None \<and> dueDate ?d1 < getTime example_now"
    by (simp add: example_invoice_def example_now_def)
  have h2: "(status ?d2 \<noteq> Sent \<or> paidDate ?d2 \<noteq> None) \<and> status ?d2 \<noteq> Overdue"
    by (simp add: example_invoice_def)
  from C7_overdue_rule [of ?d1 example_now] h1
  have "status (pre_save example_now ?d1) = Overdue" by blast
  moreover from C7_overdue_rule [of ?d2 example_now] h2
  have "status (pre_save example_now ?d2) \<noteq> Overdue" by blast
  ultimately show ?thesis using h1 by blast
qed

text \<open>
  The claim that a save of an invoice with status \<open>paid\<close> and no paid date leaves a
  status other than \<open>paid\<close> fails: the second rule of the hook assigns \<open>undefined\<close>
  to the paid date, which is absent already, and keeps the status.
\<close>

theorem C3_paid_without_date_counterexample:
  "paidDate ((example_invoice 1 1 ''INV-2025-08-0001'')\<lparr>status := Paid\<rparr>) = None
   \<and> status ((example_invoice 1 1 ''INV-2025-08-0001'')\<lparr>status := Paid\<rparr>) = Paid
   \<and> status (pre_save example_now ((example_invoice 1 1 ''INV-2025-08-0001'')\<lparr>status := Paid\<rparr>)) = Paid
   \<and> paidDate (pre_save example_now ((example_invoice 1 1 ''INV-2025-08-0001'')\<lparr>status := Paid\<rparr>)) = None"
  by (simp add: pre_save_status_of example_invoice_def)

text \<open>
  C3, as amended. For every invoice passed through the save-time rules: a present
  paid date gives status \<open>paid\<close>; an absent paid date with incoming status \<open>paid\<close>
  keeps the status \<open>paid\<close> and the paid date absent; so after a save a present paid
  date implies status \<open>paid\<close>, and not conversely. On the path of \<open>updateInvoice\<close>
  with a status in the request, the controller stamps or clears the paid date before
  the save, and there the saved status is \<open>paid\<close> if and only if a paid date is
  present.
\<close>

theorem C3_status_rules:
  "(paidDate doc \<noteq> None \<longrightarrow> status (pre_save now doc) = Paid)
   \<and> (paidDate doc = None \<and> status doc = Paid
        \<longrightarrow> status (pre_save now doc) = Paid \<and> paidDate (pre_save now doc) = None)
   \<and> (paidDate (pre_save now doc) \<noteq> None \<longrightarrow> status (pre_save now doc) = Paid)
   \<and> (status (pre_save now (updateInvoice_status (Some s) now' doc)) = Paid
        \<longleftrightarrow> paidDate (pre_save now (updateInvoice_status (Some s) now' doc)) \<noteq> None)"
  by (auto simp: pre_save_status_of updateInvoice_status_def Let_def)

text \<open>An invoice with a paid date, and one with status \<open>paid\<close> and none.\<close>

theorem C3_status_rules_witness:
  "status (pre_save example_now ((example_invoice 1 1 ''INV-2025-08-0001'')
             \<lparr>paidDate := Some 1756500000000\<rparr>)) = Paid
   \<and> status (pre_save example_now ((example_invoice 1 1 ''INV-2025-08-0001'')\<lparr>status := Paid\<rparr>)) = Paid
   \<and> paidDate (pre_save example_now ((example_invoice 1 1 ''INV-2025-08-0001'')\<lparr>status := Paid\<rparr>)) = None"
proof -
  let ?d1 = "(example_invoice 1 1 ''INV-2025-08-0001'')\<lparr>paidDate := Some 1756500000000\<rparr>"
  let ?d2 = "(example_invoice 1 1 ''INV-2025-08-0001'')\<lparr>status := Paid\<rparr>"
  have h1: "paidDate ?d1 \<noteq> None" by simp
  have h2: "paidDate ?d2 = None \<and> status ?d2 = Paid" by (simp add: example_invoice_def)
  from C3_status_rules [of ?d1 example_now] h1
  have "status (pre_save example_now ?d1) = Paid" by blast
  moreover from C3_status_rules [of ?d2 example_now] h2
  have "status (pre_save example_now ?d2) = Paid \<and> paidDate (pre_save example_now ?d2) = None"
    by blast
  ultimately show ?thesis by blast
qed

section \<open>Claims on the invoice number generator\<close>

lemma String_nat_2025: "String_nat 2025 = ''2025''"
proof -
  have 1: "String_nat 2 = ''2''" by (simp add: length_String_nat_small digit_char_def)
  have 2: "String_nat 20 = ''20''" using String_nat_step [of 20] 1 by (simp add: digit_char_def)
  have 3: "String_nat 202 = ''202''" using String_nat_step [of 202] 2 by (simp add: digit_char_def)
  show ?thesis using String_nat_step [of 2025] 3 by (simp add: digit_char_def)
qed

lemma example_prefix: "invoice_prefix example_now = ''INV-2025-09''"
proof -
  have "String_nat 9 = ''9''" by (simp add: length_String_nat_small digit_char_def)
  then show ?thesis
    by (simp add: invoice_prefix_def example_now_def String_nat_2025 padStart_def)
qed

lemma example_sequence_numbers:
  "sequence_number example_now 1 = ''INV-2025-09-0001''"
  "sequence_number example_now 2 = ''INV-2025-09-0002''"
  "sequence_number example_now 9999 = ''INV-2025-09-9999''"
  "sequence_number example_now 10000 = ''INV-2025-09-10000''"
proof -
  show "sequence_number example_now 1 = ''INV-2025-09-0001''"
    unfolding sequence_number_one example_prefix by simp
  have "padStart 4 CHR ''0'' (String_nat 2) = ''0002''"
    using pad4 [of 2] by (simp add: digit_char_def)
  then show "sequence_number example_now 2 = ''INV-2025-09-0002''"
    by (simp add: sequence_number_def example_prefix)
  have "padStart 4 CHR ''0'' (String_nat 9999) = ''9999''"
    using pad4 [of 9999] by (simp add: digit_char_def)
  then show "sequence_number example_now 9999 = ''INV-2025-09-9999''"
    by (simp add: sequence_number_def example_prefix)
  show "sequence_number example_now 10000 = ''INV-2025-09-10000''"
    by (simp add: sequence_number_def example_prefix String_nat_10000 padStart_def)
qed

lemma digits_value_snoc:
  "digits_value dig r (ds @ [c]) =
     (case dig c of None \<Rightarrow> digits_value dig r ds | Some d \<Rightarrow> digits_value dig r ds * r + int d)"
  by (simp add: digits_value_def split: option.split)

lemma digits_value_String_nat: "digits_value digit_of 10 (String_nat n) = int n"
proof (induction n rule: String_nat.induct)
  case (1 n)
  show ?case
  proof (cases "n < 10")
    case True
    then show ?thesis
      by (simp add: length_String_nat_small digits_value_def digit_of_digit_char)
  next
    case False
    with 1 have ih: "digits_value digit_of 10 (String_nat (n div 10)) = int (n div 10)" by simp
    have d: "digit_of (digit_char (n mod 10)) = Some (n mod 10)"
      by (rule digit_of_digit_char) simp
    have "String_nat n = String_nat (n div 10) @ [digit_char (n mod 10)]"
      using False by (simp add: String_nat_step)
    then have "digits_value digit_of 10 (String_nat n) = int (n div 10) * 10 + int (n mod 10)"
      by (simp add: digits_value_snoc d ih)
    also have "\<dots> = int n" by (simp add: zdiv_int zmod_int)
    finally show ?thesis .
  qed
qed

lemma String_nat_inj:
  assumes "String_nat a = String_nat b"
  shows "a = b"
proof -
  have "int a = digits_value digit_of 10 (String_nat a)"
    by (rule digits_value_String_nat [symmetric])
  also have "\<dots> = digits_value digit_of 10 (String_nat b)" unfolding assms ..
  also have "\<dots> = int b" by (rule digits_value_String_nat)
  finally show ?thesis by (rule int_int_eq [THEN iffD1])
qed

lemma first_dash:
  assumes "CHR ''-'' \<notin> set a" "CHR ''-'' \<notin> set b" "a @ CHR ''-'' # r = b @ CHR ''-'' # r'"
  shows "a = b \<and> r = r'"
proof -
  have t: "takeWhile (\<lambda>c. c \<noteq> CHR ''-'') (x @ CHR ''-'' # y) = x"
    if "CHR ''-'' \<notin> set x" for x y
    using that by (induction x) (simp_all add: eq_commute [of "CHR ''-''"])
  have "a = takeWhile (\<lambda>c. c \<noteq> CHR ''-'') (a @ CHR ''-'' # r)"
    by (rule t [OF assms(1), symmetric])
  also have "\<dots> = takeWhile (\<lambda>c. c \<noteq> CHR ''-'') (b @ CHR ''-'' # r')"
    unfolding assms(3) ..
  also have "\<dots> = b" by (rule t [OF assms(2)])
  finally have ab: "a = b" .
  from assms(3) have "r = r'" unfolding ab by simp
  with ab show ?thesis by (rule conjI)
qed

lemma pad2:
  assumes "k < 100"
  shows "padStart 2 CHR ''0'' (String_nat k) = [digit_char (k div 10), digit_char (k mod 10)]"
proof (cases "k < 10")
  case True
  then have "String_nat k = [digit_char k]" by (rule length_String_nat_small)
  with True show ?thesis by (simp add: padStart_def digit_char_def replicate_char4)
next
  case False
  with assms have "k div 10 < 10" by simp
  then have "String_nat (k div 10) = [digit_char (k div 10)]" by (rule length_String_nat_small)
  with String_nat_step [of k] False have "String_nat k = [digit_char (k div 10), digit_char (k mod 10)]"
    by simp
  then show ?thesis by (simp add: padStart_def)
qed

lemma pad2_inj:
  assumes "j < 100" "k < 100"
    and "padStart 2 CHR ''0'' (String_nat j) = padStart 2 CHR ''0'' (String_nat k)"
  shows "j = k"
proof -
  have b: "j div 10 < 10" "j mod 10 < 10" "k div 10 < 10" "k mod 10 < 10" using assms by simp_all
  from assms(3) have "digit_char (j div 10) = digit_char (k div 10)"
    "digit_char (j mod 10) = digit_char (k mod 10)"
    unfolding pad2 [OF assms(1)] pad2 [OF assms(2)] by simp_all
  with b have "j div 10 = k div 10" "j mod 10 = k mod 10" by (simp_all add: digit_char_eq)
  then have "j div 10 * 10 + j mod 10 = k div 10 * 10 + k mod 10" by (simp only:)
  then show ?thesis by (simp only: div_mult_mod_eq)
qed

lemma prefix_of_other_month:
  assumes "getMonth now < 12" "getMonth now' < 12"
    and "startsWith (invoice_prefix now) (invoice_prefix now' @ ''-'' @ sq)"
  shows "same_month now now'"
proof -
  let ?y = "String_nat (getFullYear now)" and ?y' = "String_nat (getFullYear now')"
  let ?m = "padStart 2 CHR ''0'' (String_nat (getMonth now + 1))"
  let ?m' = "padStart 2 CHR ''0'' (String_nat (getMonth now' + 1))"
  from assms(3) obtain r where "invoice_prefix now' @ ''-'' @ sq = invoice_prefix now @ r"
    unfolding startsWith_def by (metis append_take_drop_id)
  then have "?y' @ CHR ''-'' # (?m' @ CHR ''-'' # sq) = ?y @ CHR ''-'' # (?m @ r)"
    by (simp add: invoice_prefix_def)
  moreover have "CHR ''-'' \<notin> set ?y'" "CHR ''-'' \<notin> set ?y"
    by (rule digits_no_dash, rule digits_String_nat)+
  ultimately have y: "?y' = ?y" and rest: "?m' @ CHR ''-'' # sq = ?m @ r"
    using first_dash [of ?y' ?y "?m' @ CHR ''-'' # sq" "?m @ r"] by simp_all
  have l: "length ?m = 2" "length ?m' = 2" using assms(1,2) by (simp_all add: pad2)
  from rest have "take 2 (?m' @ CHR ''-'' # sq) = take 2 (?m @ r)" by simp
  with l have "?m' = ?m" by simp
  then have "getMonth now' + 1 = getMonth now + 1"
    using assms(1,2) by (intro pad2_inj) simp_all
  moreover from y have "getFullYear now' = getFullYear now" by (rule String_nat_inj)
  ultimately show ?thesis by (simp add: same_month_def)
qed

text \<open>
  C6. When the owner holds no invoice whose number starts with the prefix of the
  clock's year and month, \<open>generateInvoiceNumber\<close> returns that prefix with sequence
  1, whatever else the collection holds: the owner's invoices under other prefixes
  and the invoices of other owners. A number generated under another year or month
  never starts with the prefix of this one.
\<close>

theorem C6_first_number_of_month:
  "((\<forall>e\<in>set store. userId e = uid \<longrightarrow> \<not> startsWith (invoice_prefix now) (invoiceNumber e))
      \<longrightarrow> generateInvoiceNumber uid now store = sequence_number now 1
          \<and> sequence_number now 1 = invoice_prefix now @ ''-0001'')
   \<and> (getMonth now < 12 \<and> getMonth now' < 12 \<and> \<not> same_month now now'
      \<longrightarrow> \<not> startsWith (invoice_prefix now) (sequence_number now' k))"
proof (intro conjI impI)
  assume "\<forall>e\<in>set store. userId e = uid \<longrightarrow> \<not> startsWith (invoice_prefix now) (invoiceNumber e)"
  then have "\<forall>e\<in>set store. \<not> (userId e = uid \<and> startsWith (invoice_prefix now) (invoiceNumber e))"
    by blast
  from generate_no_prior [OF this]
  show "generateInvoiceNumber uid now store = sequence_number now 1"
    unfolding sequence_number_one .
  show "sequence_number now 1 = invoice_prefix now @ ''-0001''"
    by (rule sequence_number_one)
next
  assume a: "getMonth now < 12 \<and> getMonth now' < 12 \<and> \<not> same_month now now'"
  show "\<not> startsWith (invoice_prefix now) (sequence_number now' k)"
  proof
    assume "startsWith (invoice_prefix now) (sequence_number now' k)"
    then have "same_month now now'"
      unfolding sequence_number_def using a by (intro prefix_of_other_month) simp_all
    with a show False by simp
  qed
qed

text \<open>
  Another owner holds a number of September 2025, the owner one of August 2025.
\<close>

theorem C6_first_number_of_month_witness:
  "generateInvoiceNumber 11 example_now
     [example_invoice 101 12 ''INV-2025-09-0005'', example_invoice 102 11 ''INV-2025-08-0004'']
   = ''INV-2025-09-0001''
   \<and> \<not> startsWith (invoice_prefix example_now)
         (sequence_number \<lparr>getFullYear = 2025, getMonth = 7, getTime = 1754000000000\<rparr> 4)"
proof -
  let ?store = "[example_invoice 101 12 ''INV-2025-09-0005'', example_invoice 102 11 ''INV-2025-08-0004'']"
  let ?august = "\<lparr>getFullYear = 2025, getMonth = 7, getTime = 1754000000000\<rparr>"
  have h: "\<forall>e\<in>set ?store. userId e = 11
             \<longrightarrow> \<not> startsWith (invoice_prefix example_now) (invoiceNumber e)"
    by (simp add: example_invoice_def example_prefix startsWith_def)
  have m: "getMonth example_now < 12 \<and> getMonth ?august < 12 \<and> \<not> same_month example_now ?august"
    by (simp add: example_now_def same_month_def)
  from C6_first_number_of_month [of ?store 11 example_now ?august 4] h
  have "generateInvoiceNumber 11 example_now ?store = sequence_number example_now 1" by blast
  then have "generateInvoiceNumber 11 example_now ?store = ''INV-2025-09-0001''"
    unfolding example_sequence_numbers(1) .
  moreover from C6_first_number_of_month [of ?store 11 example_now ?august 4] m
  have "\<not> startsWith (invoice_prefix example_now) (sequence_number ?august 4)" by blast
  ultimately show ?thesis by (rule conjI)
qed

lemma parse_sequence_number:
  assumes "k < 10000"
  shows "parseInt_value (index_at (split CHR ''-'' (sequence_number now k)) 3) = Some (int k)"
proof -
  have "index_at (split CHR ''-'' (sequence_number now k)) 3
      = Some (padStart 4 CHR ''0'' (String_nat k))"
    unfolding sequence_number_def by (rule split_sequence) (rule digits_pad_String_nat)
  then show ?thesis by (simp add: parseInt_value_def parseInt_pad4 [OF assms])
qed

lemma generate_from_latest:
  assumes m: "findLatest uid (invoice_prefix now) store = Some m"
    and num: "invoiceNumber m = sequence_number now k" and kk: "k < 10000"
  shows "generateInvoiceNumber uid now store = sequence_number now (k + 1)"
proof -
  have "parseInt_value (index_at (split CHR ''-'' (invoiceNumber m)) 3) = Some (int k)"
    unfolding num by (rule parse_sequence_number [OF kk])
  moreover have "String_number (Some (int k + 1)) = String_nat (k + 1)"
    by (simp add: String_number_def nat_add_distrib)
  ultimately show ?thesis
    by (simp add: generateInvoiceNumber_def m sequence_number_def)
qed

lemma example_request_ok:
  "invoiceValidation example_request"
  "\<forall>it\<in>set (req_items example_request). 1 / 100 \<le> quantity it"
  by (simp_all add: invoiceValidation_def example_request_def optional_percent_def
      optional_maxlength_def)

lemma example_user_ok:
  "checkInvoiceLimit example_user" "user_oid example_user = 11"
  "findCustomer example_customers (req_customerId example_request) (user_oid example_user) \<noteq> None"
  by (simp_all add: checkInvoiceLimit_def example_user_def findCustomer_def example_customers_def
      example_request_def)

lemma example_user_next:
  "checkInvoiceLimit (example_user\<lparr>invoiceCount := invoiceCount example_user + 1\<rparr>)"
  "user_oid (example_user\<lparr>invoiceCount := invoiceCount example_user + 1\<rparr>) = 11"
  by (simp_all add: checkInvoiceLimit_def example_user_def)

lemma example_post_invoices:
  "post_invoices example_user example_customers example_request now store =
     (case createInvoice 11 example_request now store of
        Inl e \<Rightarrow> Inl e
      | Inr (doc, store') \<Rightarrow>
          Inr (doc, store', example_user\<lparr>invoiceCount := invoiceCount example_user + 1\<rparr>))"
  using post_invoices_accepted [OF example_user_ok(1) example_request_ok(1) example_user_ok(3)]
  unfolding example_user_ok(2) .

lemma example_post_invoices_next:
  "post_invoices (example_user\<lparr>invoiceCount := invoiceCount example_user + 1\<rparr>)
       example_customers example_request now store =
     (case createInvoice 11 example_request now store of
        Inl e \<Rightarrow> Inl e
      | Inr (doc, store') \<Rightarrow>
          Inr (doc, store', example_user\<lparr>invoiceCount := invoiceCount example_user + 1 + 1\<rparr>))"
proof -
  let ?u = "example_user\<lparr>invoiceCount := invoiceCount example_user + 1\<rparr>"
  have c: "findCustomer example_customers (req_customerId example_request) (user_oid ?u) \<noteq> None"
    using example_user_ok(3) by simp
  from post_invoices_accepted [OF example_user_next(1) example_request_ok(1) c, of now store]
  show ?thesis unfolding example_user_next(2) by (simp split: sum.split prod.split)
qed

text \<open>Two requests on the empty collection.\<close>

lemma example_cycles:
  "fst (request_cycles example_user example_customers
          [(example_now, example_request), (example_now, example_request)] [])
     = [Inr ''INV-2025-09-0001'', Inr ''INV-2025-09-0002'']"
proof -
  let ?reqs = "[(example_now, example_request), (example_now, example_request)]"
  have c: "cycle_ok 11 example_customers example_now (example_now, example_request)"
    using example_request_ok example_user_ok(3) unfolding example_user_ok(2)
    by (simp add: cycle_ok_def same_month_def list_all_iff)
  have h1: "list_all (cycle_ok 11 example_customers example_now) ?reqs" by (simp add: c)
  have h2: "within_limit example_user (length ?reqs)"
    by (simp add: within_limit_def example_user_def)
  have h3: "0 + length ?reqs \<le> 10000" by simp
  have h4: "\<forall>e\<in>set []. startsWith (invoice_prefix example_now) (invoiceNumber e)
            \<longrightarrow> userId e = 11
              \<and> (\<exists>j. 1 \<le> j \<and> j \<le> 0 \<and> invoiceNumber e = sequence_number example_now j)"
    by simp
  have h5: "1 \<le> (0::nat)
      \<longrightarrow> (\<exists>e\<in>set []. userId e = 11 \<and> invoiceNumber e = sequence_number example_now 0)"
    by simp
  have "[0 + 1 ..< 0 + 1 + length ?reqs] = [1, 2]" by (simp add: upt_rec)
  then have r: "map (\<lambda>j. Inr (sequence_number example_now j)) [0 + 1 ..< 0 + 1 + length ?reqs]
      = [Inr ''INV-2025-09-0001'', Inr ''INV-2025-09-0002'']"
    by (simp only: list.map example_sequence_numbers)
  from cycles_from [OF h1 example_user_ok(2) h2 h3 h4 h5] show ?thesis unfolding r .
qed

text \<open>
  C5. The generator does not number an owner's invoices of a month \<open>1, 2, 3, \<dots>\<close>
  for every count of requests, as its comments (\<open>Generate unique invoice number\<close>,
  \<open>Get the latest invoice number\<close>) intend. Two inputs on which the route
  \<open>POST /api/invoices\<close> fails, for an owner on the pro plan with valid requests for
  a customer of theirs:

  \<^item> After the invoice with sequence 9999 the first request is answered with
    sequence 10000. That number has five digits and sorts below \<open>9999\<close> in the
    order of strings, so the query keeps returning the invoice with sequence 9999 as
    the latest: the second request generates the number with sequence 10000 again
    and its save is rejected.

  \<^item> When another owner holds the month's number with sequence 1 and the owner
    has no invoice of the month, the generator returns the number with sequence 1,
    and the save is rejected by the unique index on \<open>invoiceNumber\<close>.
\<close>

theorem C5_sequence_not_increasing:
  "fst (request_cycles example_user example_customers
          [(example_now, example_request), (example_now, example_request)]
          [example_invoice 101 11 ''INV-2025-09-9999''])
     = [Inr ''INV-2025-09-10000'', Inl (ServerError DuplicateKey)]
   \<and> generateInvoiceNumber 11 example_now
         (fst (snd (request_cycles example_user example_customers [(example_now, example_request)]
                 [example_invoice 101 11 ''INV-2025-09-9999''])))
       = ''INV-2025-09-10000''
   \<and> generateInvoiceNumber 11 example_now [example_invoice 101 12 ''INV-2025-09-0001'']
       = ''INV-2025-09-0001''
   \<and> fst (request_cycles example_user example_customers [(example_now, example_request)]
          [example_invoice 101 12 ''INV-2025-09-0001''])
     = [Inl (ServerError DuplicateKey)]"
proof -
  let ?d = "example_invoice 101 11 ''INV-2025-09-9999''"
  let ?o = "example_invoice 101 12 ''INV-2025-09-0001''"
  have nd: "invoiceNumber ?d = sequence_number example_now 9999" "userId ?d = 11"
    by (simp_all add: example_invoice_def example_sequence_numbers)
  have ten: "sequence_number example_now (9999 + 1) = ''INV-2025-09-10000''"
    using example_sequence_numbers(4) by simp
  have l0: "findLatest 11 (invoice_prefix example_now) [?d] = Some ?d"
    by (simp add: findLatest_def example_prefix startsWith_def example_invoice_def)
  have g0: "generateInvoiceNumber 11 example_now [?d] = ''INV-2025-09-10000''"
    using generate_from_latest [OF l0 nd(1)] ten by simp
  have "\<forall>e\<in>set [?d]. invoiceNumber e \<noteq> generateInvoiceNumber 11 example_now [?d]"
    unfolding g0 by (simp add: example_invoice_def)
  from createInvoice_fresh [OF example_request_ok this] obtain doc where
    c0: "createInvoice 11 example_request example_now [?d] = Inr (doc, [?d, doc])"
    and doc: "invoiceNumber doc = ''INV-2025-09-10000''" "userId doc = 11"
    unfolding g0 by auto
  have "\<not> invoiceNumber ?d < invoiceNumber doc"
    unfolding doc by (simp add: example_invoice_def)
  then have l1: "findLatest 11 (invoice_prefix example_now) [?d, doc] = Some ?d"
    using doc nd(2)
    by (simp add: findLatest_def example_prefix startsWith_def example_invoice_def)
  have g1: "generateInvoiceNumber 11 example_now [?d, doc] = ''INV-2025-09-10000''"
    using generate_from_latest [OF l1 nd(1)] ten by simp
  have "doc \<in> set [?d, doc]" by simp
  from createInvoice_duplicate [OF example_request_ok this, of 11 example_now] doc(1) g1
  have c1: "createInvoice 11 example_request example_now [?d, doc] = Inl (ServerError DuplicateKey)"
    by simp
  have p0: "post_invoices example_user example_customers example_request example_now [?d]
      = Inr (doc, [?d, doc], example_user\<lparr>invoiceCount := invoiceCount example_user + 1\<rparr>)"
    unfolding example_post_invoices c0 by simp
  have p1: "post_invoices (example_user\<lparr>invoiceCount := invoiceCount example_user + 1\<rparr>)
      example_customers example_request example_now [?d, doc] = Inl (ServerError DuplicateKey)"
    unfolding example_post_invoices_next c1 by simp
  have t1: "fst (request_cycles example_user example_customers
          [(example_now, example_request), (example_now, example_request)] [?d])
     = [Inr ''INV-2025-09-10000'', Inl (ServerError DuplicateKey)]"
    by (simp add: p0 p1 doc)
  have "fst (snd (request_cycles example_user example_customers [(example_now, example_request)] [?d]))
      = [?d, doc]"
    by (simp add: p0)
  then have t2: "generateInvoiceNumber 11 example_now
         (fst (snd (request_cycles example_user example_customers [(example_now, example_request)] [?d])))
       = ''INV-2025-09-10000''"
    by (simp only: g1)
  have "\<forall>e\<in>set [?o]. \<not> (userId e = 11 \<and> startsWith (invoice_prefix example_now) (invoiceNumber e))"
    by (simp add: example_invoice_def)
  from generate_no_prior [OF this]
  have t3: "generateInvoiceNumber 11 example_now [?o] = ''INV-2025-09-0001''"
    unfolding example_prefix by simp
  have "?o \<in> set [?o]" "invoiceNumber ?o = generateInvoiceNumber 11 example_now [?o]"
    unfolding t3 by (simp_all add: example_invoice_def)
  from createInvoice_duplicate [OF example_request_ok this]
  have "createInvoice 11 example_request example_now [?o] = Inl (ServerError DuplicateKey)" .
  then have "post_invoices example_user example_customers example_request example_now [?o]
      = Inl (ServerError DuplicateKey)"
    unfolding example_post_invoices by simp
  then have t4: "fst (request_cycles example_user example_customers [(example_now, example_request)] [?o])
     = [Inl (ServerError DuplicateKey)]"
    by simp
  from t1 t2 t3 t4 show ?thesis by (intro conjI)
qed

lemma parseInt_undefined: "parseInt ''undefined'' = None"
  by (simp add: parseInt_def StrWhiteSpaceChar_def digit_of_def)

lemma parseInt_empty: "parseInt [] = None"
  by (simp add: parseInt_def)

lemma digit_of_zero: "digit_of CHR ''0'' = Some 0"
  by (simp add: digit_of_def)

lemma parseInt_plain:
  assumes "dropWhile StrWhiteSpaceChar s = s" "hd s \<noteq> CHR ''+''" "hd s \<noteq> CHR ''-''"
    and "take 2 s \<noteq> ''0x''" "take 2 s \<noteq> ''0X''"
  shows "parseInt s =
     (if takeWhile (\<lambda>c. digit_of c \<noteq> None) s = [] then None
      else Some (digits_value digit_of 10 (takeWhile (\<lambda>c. digit_of c \<noteq> None) s)))"
  unfolding parseInt_def Let_def assms(1) using assms(2-5) by simp

lemma take2_Cons: "take 2 (c # cs) = c # take 1 cs"
  by (simp add: eval_nat_numeral)

lemma parseInt_no_digit:
  assumes "\<not> StrWhiteSpaceChar c" "c \<noteq> CHR ''+''" "c \<noteq> CHR ''-''" "digit_of c = None"
  shows "parseInt (c # cs) = None"
proof -
  have "c \<noteq> CHR ''0''" using assms(4) digit_of_zero by auto
  then have h: "take 2 (c # cs) \<noteq> ''0x''" "take 2 (c # cs) \<noteq> ''0X''"
    unfolding take2_Cons by simp_all
  have w: "dropWhile StrWhiteSpaceChar (c # cs) = c # cs" using assms(1) by simp
  have "hd (c # cs) \<noteq> CHR ''+''" "hd (c # cs) \<noteq> CHR ''-''" using assms(2,3) by simp_all
  from parseInt_plain [OF w this h] assms(4) show ?thesis by simp
qed

lemma parseInt_no_integer:
  assumes "no_leading_integer seg"
  shows "parseInt_value seg = None"
proof (cases seg)
  case None
  then show ?thesis by (simp add: parseInt_value_def parseInt_undefined)
next
  case (Some s)
  show ?thesis
  proof (cases s)
    case Nil
    with Some show ?thesis by (simp add: parseInt_value_def parseInt_empty)
  next
    case (Cons c cs)
    with Some assms have "\<not> StrWhiteSpaceChar c" "c \<noteq> CHR ''+''" "c \<noteq> CHR ''-''" "digit_of c = None"
      by (simp_all add: no_leading_integer_def)
    from parseInt_no_digit [OF this] Some Cons show ?thesis by (simp add: parseInt_value_def)
  qed
qed

lemma digit_not_special:
  assumes "digit_of c \<noteq> None"
  shows "\<not> StrWhiteSpaceChar c \<and> c \<noteq> CHR ''+'' \<and> c \<noteq> CHR ''-''"
proof -
  from assms have "CHR ''0'' \<le> c" "c \<le> CHR ''9''" by (simp_all add: digit_of_def split: if_splits)
  then have "48 \<le> (of_char c :: nat)" "(of_char c :: nat) \<le> 57" by (simp_all add: less_eq_char_def)
  then show ?thesis by (auto simp: StrWhiteSpaceChar_def)
qed

lemma parseInt_leading_digits:
  assumes "s \<noteq> []" "digit_of (hd s) \<noteq> None" "take 2 s \<noteq> ''0x''" "take 2 s \<noteq> ''0X''"
  shows "parseInt s = Some (digits_value digit_of 10 (leading_digits s))"
proof -
  from assms(1) obtain c cs where s: "s = c # cs" by (cases s) auto
  with assms(2) have d: "digit_of c \<noteq> None" by simp
  note sp = digit_not_special [OF d]
  have w: "dropWhile StrWhiteSpaceChar s = s" using sp s by simp
  have h: "hd s \<noteq> CHR ''+''" "hd s \<noteq> CHR ''-''" using sp s by simp_all
  have "takeWhile (\<lambda>c. digit_of c \<noteq> None) s \<noteq> []" using d s by simp
  with parseInt_plain [OF w h assms(3,4)] show ?thesis
    unfolding leading_digits_def by simp
qed

lemma foldl_digits_nonneg:
  "0 \<le> acc \<Longrightarrow>
   0 \<le> foldl (\<lambda>acc c. case dig c of None \<Rightarrow> acc | Some d \<Rightarrow> acc * 10 + int d) acc ds"
  by (induction ds arbitrary: acc) (auto split: option.splits)

lemma digits_value_nonneg: "0 \<le> digits_value dig 10 ds"
  unfolding digits_value_def by (rule foldl_digits_nonneg) simp

lemma pad4_NaN: "padStart 4 CHR ''0'' (String_number None) = ''0NaN''"
  by (simp add: padStart_def String_number_def)

lemma generate_malformed:
  assumes "findLatest uid (invoice_prefix now) store = Some latest"
  shows "(no_leading_integer (index_at (split CHR ''-'' (invoiceNumber latest)) 3)
            \<longrightarrow> generateInvoiceNumber uid now store = invoice_prefix now @ ''-0NaN'')
       \<and> (index_at (split CHR ''-'' (invoiceNumber latest)) 3 = Some s \<and> s \<noteq> []
            \<and> digit_of (hd s) \<noteq> None \<and> take 2 s \<noteq> ''0x'' \<and> take 2 s \<noteq> ''0X''
            \<and> digits_value digit_of 10 (leading_digits s) < MAX_SAFE_INTEGER
            \<longrightarrow> generateInvoiceNumber uid now store
                  = invoice_prefix now @ ''-''
                      @ padStart 4 CHR ''0''
                          (String_nat (nat (digits_value digit_of 10 (leading_digits s) + 1))))"
proof (intro conjI impI)
  assume "no_leading_integer (index_at (split CHR ''-'' (invoiceNumber latest)) 3)"
  then have "parseInt_value (index_at (split CHR ''-'' (invoiceNumber latest)) 3) = None"
    by (rule parseInt_no_integer)
  then show "generateInvoiceNumber uid now store = invoice_prefix now @ ''-0NaN''"
    by (simp add: generateInvoiceNumber_def assms pad4_NaN)
next
  assume a: "index_at (split CHR ''-'' (invoiceNumber latest)) 3 = Some s \<and> s \<noteq> []
            \<and> digit_of (hd s) \<noteq> None \<and> take 2 s \<noteq> ''0x'' \<and> take 2 s \<noteq> ''0X''
            \<and> digits_value digit_of 10 (leading_digits s) < MAX_SAFE_INTEGER"
  then have "parseInt s = Some (digits_value digit_of 10 (leading_digits s))"
    by (intro parseInt_leading_digits) simp_all
  moreover have "\<not> digits_value digit_of 10 (leading_digits s) + 1 < 0"
    using digits_value_nonneg [of digit_of "leading_digits s"] by simp
  ultimately show "generateInvoiceNumber uid now store
                  = invoice_prefix now @ ''-''
                      @ padStart 4 CHR ''0''
                          (String_nat (nat (digits_value digit_of 10 (leading_digits s) + 1)))"
    using a by (simp add: generateInvoiceNumber_def assms parseInt_value_def String_number_def)
qed


text \<open>
  C2, as amended. \<open>generateInvoiceNumber\<close> raises no error for a latest invoice with
  a malformed number. When the fourth segment of that number is missing, empty, or
  starts with an ASCII character that is neither a digit, a sign nor white space,
  the result is the prefix followed by \<open>-0NaN\<close>. When the segment starts with a
  decimal digit (and not with \<open>0x\<close> or \<open>0X\<close>) and the value of its leading run of
  digits is below \<open>MAX_SAFE_INTEGER\<close>, the result is the prefix followed by the
  successor of that value, padded to four digits, whatever follows the digits.
\<close>

theorem C2_malformed_latest_number:
  assumes "findLatest uid (invoice_prefix now) store = Some latest"
  shows "(no_leading_integer (index_at (split CHR ''-'' (invoiceNumber latest)) 3)
            \<longrightarrow> generateInvoiceNumber uid now store = invoice_prefix now @ ''-0NaN'')
       \<and> (index_at (split CHR ''-'' (invoiceNumber latest)) 3 = Some s \<and> s \<noteq> []
            \<and> digit_of (hd s) \<noteq> None \<and> take 2 s \<noteq> ''0x'' \<and> take 2 s \<noteq> ''0X''
            \<and> digits_value digit_of 10 (leading_digits s) < MAX_SAFE_INTEGER
            \<longrightarrow> generateInvoiceNumber uid now store
                  = invoice_prefix now @ ''-''
                      @ padStart 4 CHR ''0''
                          (String_nat (nat (digits_value digit_of 10 (leading_digits s) + 1))))"
  using assms by (rule generate_malformed)

lemma example_findLatest_single:
  "startsWith ''INV-2025-09'' num \<Longrightarrow>
   findLatest 11 (invoice_prefix example_now) [example_invoice 101 11 num]
     = Some (example_invoice 101 11 num)"
  by (simp add: findLatest_def example_prefix example_invoice_def)

lemma String_nat_13: "String_nat 13 = ''13''"
proof -
  have "String_nat 1 = ''1''" by (simp add: length_String_nat_small digit_char_def)
  with String_nat_step [of 13] show ?thesis by (simp add: digit_char_def)
qed

text \<open>A latest number without a fourth segment, and one whose segment is \<open>12abc\<close>.\<close>

theorem C2_malformed_latest_number_witness:
  "generateInvoiceNumber 11 example_now [example_invoice 101 11 ''INV-2025-09'']
     = ''INV-2025-09-0NaN''
   \<and> generateInvoiceNumber 11 example_now [example_invoice 101 11 ''INV-2025-09-12abc'']
     = ''INV-2025-09-0013''"
proof -
  let ?a = "example_invoice 101 11 ''INV-2025-09''"
  let ?b = "example_invoice 101 11 ''INV-2025-09-12abc''"
  have la: "findLatest 11 (invoice_prefix example_now) [?a] = Some ?a"
    by (rule example_findLatest_single) (simp add: startsWith_def)
  have lb: "findLatest 11 (invoice_prefix example_now) [?b] = Some ?b"
    by (rule example_findLatest_single) (simp add: startsWith_def)
  have sa: "no_leading_integer (index_at (split CHR ''-'' (invoiceNumber ?a)) 3)"
    by (simp add: example_invoice_def index_at_def no_leading_integer_def)
  have d: "digits_value digit_of 10 (leading_digits ''12abc'') = 12"
    by (simp add: leading_digits_def digits_value_def digit_of_def)
  have sb: "index_at (split CHR ''-'' (invoiceNumber ?b)) 3 = Some ''12abc'' \<and> ''12abc'' \<noteq> []
            \<and> digit_of (hd ''12abc'') \<noteq> None \<and> take 2 ''12abc'' \<noteq> ''0x'' \<and> take 2 ''12abc'' \<noteq> ''0X''
            \<and> digits_value digit_of 10 (leading_digits ''12abc'') < MAX_SAFE_INTEGER"
    unfolding d by (simp add: example_invoice_def index_at_def digit_of_def take2_Cons
        MAX_SAFE_INTEGER_def)
  have v: "nat (digits_value digit_of 10 (leading_digits ''12abc'') + 1) = 13"
    unfolding d by simp
  have p: "padStart 4 CHR ''0'' ''13'' = ''0013''"
    by (simp add: padStart_def replicate_char4)
  from C2_malformed_latest_number [OF la, of "''12abc''"] sa
  have "generateInvoiceNumber 11 example_now [?a] = ''INV-2025-09-0NaN''"
    unfolding example_prefix by simp
  moreover from C2_malformed_latest_number [OF lb, of "''12abc''"] sb
  have "generateInvoiceNumber 11 example_now [?b] = ''INV-2025-09-0013''"
    unfolding example_prefix v String_nat_13 p by simp
  ultimately show ?thesis by (rule conjI)
qed

text \<open>
  The claim that a malformed latest number makes the generation fail does not hold:
  for the stored number \<open>INV-2025-09-ABCD\<close> the generator returns
  \<open>INV-2025-09-0NaN\<close>, and \<open>createInvoice\<close> persists an invoice under it.
\<close>

theorem C2_no_error_counterexample:
  "\<not> well_formed_number (invoice_prefix example_now) ''INV-2025-09-ABCD''
   \<and> generateInvoiceNumber 11 example_now [example_invoice 101 11 ''INV-2025-09-ABCD'']
       = ''INV-2025-09-0NaN''
   \<and> map_sum id (invoiceNumber \<circ> fst)
        (createInvoice 11 example_request example_now [example_invoice 101 11 ''INV-2025-09-ABCD''])
       = Inr ''INV-2025-09-0NaN''"
proof -
  let ?a = "example_invoice 101 11 ''INV-2025-09-ABCD''"
  have w: "\<not> well_formed_number (invoice_prefix example_now) ''INV-2025-09-ABCD''"
    by (simp add: well_formed_number_def example_prefix digit_of_def)
  have la: "findLatest 11 (invoice_prefix example_now) [?a] = Some ?a"
    by (rule example_findLatest_single) (simp add: startsWith_def)
  have sa: "no_leading_integer (index_at (split CHR ''-'' (invoiceNumber ?a)) 3)"
    by (simp add: example_invoice_def index_at_def no_leading_integer_def
        StrWhiteSpaceChar_def digit_of_def)
  from generate_malformed [OF la, of "[]"] sa
  have g: "generateInvoiceNumber 11 example_now [?a] = ''INV-2025-09-0NaN''"
    unfolding example_prefix by simp
  have "\<forall>e\<in>set [?a]. invoiceNumber e \<noteq> generateInvoiceNumber 11 example_now [?a]"
    unfolding g by (simp add: example_invoice_def)
  from createInvoice_fresh [OF example_request_ok this] obtain doc where
    "createInvoice 11 example_request example_now [?a] = Inr (doc, [?a] @ [doc])"
    "invoiceNumber doc = ''INV-2025-09-0NaN''"
    unfolding g by blast
  then have "map_sum id (invoiceNumber \<circ> fst) (createInvoice 11 example_request example_now [?a])
       = Inr ''INV-2025-09-0NaN''"
    by simp
  with w g show ?thesis by blast
qed

section \<open>Claims on persistence\<close>

lemma createInvoice_fresh_eq:
  assumes "invoiceValidation req" "\<forall>it\<in>set (req_items req). 1 / 100 \<le> quantity it"
    and "\<forall>e\<in>set store. invoiceNumber e \<noteq> generateInvoiceNumber uid now store"
  shows "createInvoice uid req now store =
     Inr (pre_save now (createInvoice_document uid req now
                          (generateInvoiceNumber uid now store) (fresh_oid store)),
          store @ [pre_save now (createInvoice_document uid req now
                          (generateInvoiceNumber uid now store) (fresh_oid store))])"
proof -
  let ?num = "generateInvoiceNumber uid now store"
  let ?d = "createInvoice_document uid req now ?num (fresh_oid store)"
  have v: "validate_invoice ?d"
    using assms(1,2) generate_nonempty by (rule valid_document)
  have "invoiceNumber ?d = ?num" by (simp add: createInvoice_document_eq)
  with assms(3) have "\<forall>e\<in>set store. invoiceNumber e \<noteq> invoiceNumber ?d" by simp
  from save_new_ok [OF v this, of now] assms(1) show ?thesis
    by (simp add: createInvoice_def Let_def)
qed

lemma createInvoice_Inr:
  assumes "createInvoice uid req now store = Inr (d, s)"
  shows "invoiceValidation req \<and> s = store @ [d]
     \<and> invoiceNumber d = generateInvoiceNumber uid now store \<and> userId d = uid
     \<and> (\<forall>e\<in>set store. invoiceNumber e \<noteq> invoiceNumber d)"
proof -
  let ?d = "createInvoice_document uid req now (generateInvoiceNumber uid now store) (fresh_oid store)"
  from assms have v: "invoiceValidation req"
    by (auto simp: createInvoice_def split: if_splits)
  with assms have "save_new now ?d store = Inr (d, s)"
    by (auto simp: createInvoice_def Let_def split: sum.splits)
  from save_new_Inr [OF this] have "d = pre_save now ?d" "s = store @ [d]"
    "\<forall>e\<in>set store. invoiceNumber e \<noteq> invoiceNumber ?d" by simp_all
  with v show ?thesis by (simp add: pre_save_key createInvoice_document_eq)
qed

lemma createInvoice_collision:
  assumes "e \<in> set store" "invoiceNumber e = generateInvoiceNumber uid now store"
  shows "createInvoice uid req now store = Inl BadRequest
     \<or> createInvoice uid req now store = Inl (ServerError ValidationError)
     \<or> createInvoice uid req now store = Inl (ServerError DuplicateKey)"
proof (cases "invoiceValidation req")
  case False
  then show ?thesis by (simp add: createInvoice_def)
next
  case True
  let ?d = "createInvoice_document uid req now (generateInvoiceNumber uid now store) (fresh_oid store)"
  have "invoiceNumber e = invoiceNumber ?d"
    using assms(2) by (simp add: createInvoice_document_eq)
  from save_new_rejects [OF assms(1) this, of now] True show ?thesis
    by (auto simp: createInvoice_def Let_def)
qed

lemma save_new_distinct:
  assumes "distinct (map invoiceNumber store)" "save_new now doc store = Inr (doc', store')"
  shows "distinct (map invoiceNumber store')"
proof -
  from save_new_Inr [OF assms(2)] have "doc' = pre_save now doc" "store' = store @ [doc']"
    "\<forall>e\<in>set store. invoiceNumber e \<noteq> invoiceNumber doc" by simp_all
  with assms(1) show ?thesis by (auto simp: pre_save_key)
qed

lemma two_owners_collide:
  assumes "uid1 \<noteq> uid2" "same_month now now'" "createInvoice uid1 req1 now [] = Inr (d1, s1)"
  shows "invoiceNumber d1 = sequence_number now 1
     \<and> generateInvoiceNumber uid2 now' s1 = sequence_number now 1
     \<and> (createInvoice uid2 req2 now' s1 = Inl BadRequest
        \<or> createInvoice uid2 req2 now' s1 = Inl (ServerError ValidationError)
        \<or> createInvoice uid2 req2 now' s1 = Inl (ServerError DuplicateKey))"
proof -
  from createInvoice_Inr [OF assms(3)] have s1: "s1 = [d1]"
    and n1: "invoiceNumber d1 = generateInvoiceNumber uid1 now []" and u1: "userId d1 = uid1"
    by simp_all
  have "generateInvoiceNumber uid1 now [] = invoice_prefix now @ ''-0001''"
    by (rule generate_no_prior) simp
  with n1 have a: "invoiceNumber d1 = sequence_number now 1"
    unfolding sequence_number_one by simp
  have "\<forall>e\<in>set s1. \<not> (userId e = uid2 \<and> startsWith (invoice_prefix now') (invoiceNumber e))"
    using s1 u1 assms(1) by simp
  from generate_no_prior [OF this]
  have b: "generateInvoiceNumber uid2 now' s1 = sequence_number now 1"
    unfolding sequence_number_one same_month_prefix [OF assms(2)] .
  have "d1 \<in> set s1" using s1 by simp
  from createInvoice_collision [OF this, of uid2 now' req2] a b
  have "createInvoice uid2 req2 now' s1 = Inl BadRequest
        \<or> createInvoice uid2 req2 now' s1 = Inl (ServerError ValidationError)
        \<or> createInvoice uid2 req2 now' s1 = Inl (ServerError DuplicateKey)"
    by simp
  with a b show ?thesis by blast
qed

text \<open>
  C4. The unique index on \<open>invoiceNumber\<close> alone makes the number unique across all
  owners: a save of a new invoice whose number equals that of a stored invoice is
  rejected, whoever owns the two; a save that succeeds keeps the stored numbers
  pairwise distinct; and after one owner has created the first invoice of a month
  on the empty collection, the generator proposes the same number, with sequence 1,
  to any other owner in that month, and that owner's create request fails.
\<close>

theorem C4_invoice_number_unique_across_owners:
  "(e \<in> set store \<and> invoiceNumber e = invoiceNumber doc
      \<longrightarrow> save_new now doc store = Inl ValidationError \<or> save_new now doc store = Inl DuplicateKey)
   \<and> (distinct (map invoiceNumber store) \<and> save_new now doc store = Inr (doc', store')
      \<longrightarrow> distinct (map invoiceNumber store'))
   \<and> (uid1 \<noteq> uid2 \<and> same_month now now' \<and> createInvoice uid1 req1 now [] = Inr (d1, s1)
      \<longrightarrow> invoiceNumber d1 = sequence_number now 1
          \<and> generateInvoiceNumber uid2 now' s1 = sequence_number now 1
          \<and> (createInvoice uid2 req2 now' s1 = Inl BadRequest
             \<or> createInvoice uid2 req2 now' s1 = Inl (ServerError ValidationError)
             \<or> createInvoice uid2 req2 now' s1 = Inl (ServerError DuplicateKey)))"
  using save_new_rejects [of e store doc now] save_new_distinct [of store now doc doc' store']
    two_owners_collide [of uid1 uid2 now now' req1 d1 s1 req2]
  by blast


lemma example_generate_empty: "generateInvoiceNumber 11 example_now [] = ''INV-2025-09-0001''"
  using generate_no_prior [of "[]" 11 example_now] by (simp add: example_prefix)

lemma example_create_first:
  "createInvoice 11 example_request example_now [] =
     Inr (pre_save example_now
            (createInvoice_document 11 example_request example_now ''INV-2025-09-0001'' (fresh_oid [])),
          [pre_save example_now
            (createInvoice_document 11 example_request example_now ''INV-2025-09-0001'' (fresh_oid []))])"
  using createInvoice_fresh_eq [OF example_request_ok, of "[]" 11 example_now]
  by (simp add: example_generate_empty)

text \<open>Two owners and the first number of September 2025.\<close>

theorem C4_invoice_number_unique_across_owners_witness:
  "userId (example_invoice 101 11 ''INV-2025-09-0001'') \<noteq> userId (example_invoice 102 12 ''INV-2025-09-0001'')
   \<and> (save_new example_now (example_invoice 102 12 ''INV-2025-09-0001'')
          [example_invoice 101 11 ''INV-2025-09-0001''] = Inl ValidationError
      \<or> save_new example_now (example_invoice 102 12 ''INV-2025-09-0001'')
          [example_invoice 101 11 ''INV-2025-09-0001''] = Inl DuplicateKey)
   \<and> distinct (map invoiceNumber
        [example_invoice 101 11 ''INV-2025-09-0001'',
         pre_save example_now (example_invoice 102 12 ''INV-2025-09-0002'')])
   \<and> generateInvoiceNumber 12 example_now
        [pre_save example_now
           (createInvoice_document 11 example_request example_now ''INV-2025-09-0001'' (fresh_oid []))]
       = ''INV-2025-09-0001''"
proof -
  let ?e = "example_invoice 101 11 ''INV-2025-09-0001''"
  let ?doc = "example_invoice 102 12 ''INV-2025-09-0001''"
  let ?doc2 = "example_invoice 102 12 ''INV-2025-09-0002''"
  let ?d1 = "pre_save example_now
           (createInvoice_document 11 example_request example_now ''INV-2025-09-0001'' (fresh_oid []))"
  have h1: "?e \<in> set [?e] \<and> invoiceNumber ?e = invoiceNumber ?doc"
    by (simp add: example_invoice_def)
  have v2: "validate_invoice ?doc2"
    by (simp add: validate_invoice_def validate_item_def example_invoice_def optional_maxlength_def)
  have "\<forall>x\<in>set [?e]. invoiceNumber x \<noteq> invoiceNumber ?doc2" by (simp add: example_invoice_def)
  from save_new_ok [OF v2 this, of example_now]
  have h2: "distinct (map invoiceNumber [?e])
      \<and> save_new example_now ?doc2 [?e] = Inr (pre_save example_now ?doc2, [?e, pre_save example_now ?doc2])"
    by simp
  have h3: "(11::nat) \<noteq> 12 \<and> same_month example_now example_now
      \<and> createInvoice 11 example_request example_now [] = Inr (?d1, [?d1])"
    by (simp add: same_month_def example_create_first)
  note t1 = C4_invoice_number_unique_across_owners [where e = ?e and store = "[?e]" and doc = ?doc
      and now = example_now, THEN conjunct1, rule_format, OF h1]
  note t2 = C4_invoice_number_unique_across_owners [where store = "[?e]" and doc = ?doc2
      and now = example_now and doc' = "pre_save example_now ?doc2"
      and store' = "[?e, pre_save example_now ?doc2]",
      THEN conjunct2, THEN conjunct1, rule_format, OF h2]
  note t3 = C4_invoice_number_unique_across_owners [where now = example_now and now' = example_now
      and ?uid1.0 = 11 and ?uid2.0 = 12 and ?req1.0 = example_request and ?d1.0 = ?d1
      and ?s1.0 = "[?d1]",
      THEN conjunct2, THEN conjunct2, rule_format, OF h3]
  have "userId ?e \<noteq> userId ?doc" by (simp add: example_invoice_def)
  moreover from t3 have "generateInvoiceNumber 12 example_now [?d1] = ''INV-2025-09-0001''"
    unfolding example_sequence_numbers by blast
  ultimately show ?thesis using t1 t2 by blast
qed


lemma raw_subtotal_recomputed:
  "raw_subtotal (map (\<lambda>it. it\<lparr>amount := quantity it * rate it\<rparr>) its) = raw_subtotal its"
  by (simp add: raw_subtotal_def comp_def)

lemma pre_save_totals_idem: "pre_save_totals (pre_save_totals doc) = pre_save_totals doc"
  by (simp add: pre_save_totals_eq raw_subtotal_recomputed comp_def)

lemma pre_save_totals_status:
  "pre_save_totals (pre_save_status now doc) = pre_save_status now (pre_save_totals doc)"
  by (simp add: pre_save_totals_eq pre_save_status_def)

lemma pre_save_fixpoint: "pre_save_totals (pre_save t d) = pre_save t d"
  by (simp add: pre_save_def pre_save_totals_status pre_save_totals_idem)

lemma pre_save_copy:
  assumes "pre_save_totals e = e"
  shows "pre_save now (e\<lparr>oid := i, invoiceNumber := num, status := Draft, paidDate := None\<rparr>)
           = e\<lparr>oid := i, invoiceNumber := num, status := Draft, paidDate := None\<rparr>"
proof -
  have "pre_save_totals (e\<lparr>oid := i, invoiceNumber := num, status := Draft, paidDate := None\<rparr>)
      = (pre_save_totals e)\<lparr>oid := i, invoiceNumber := num, status := Draft, paidDate := None\<rparr>"
    by (simp add: pre_save_totals_eq)
  then show ?thesis by (simp add: pre_save_def assms pre_save_status_def)
qed

lemma duplicateInvoice_Inr:
  assumes "duplicateInvoice uid i now store = Inr (new, store')"
  shows "\<exists>orig\<in>set store. oid orig = i \<and> userId orig = uid
           \<and> new = pre_save now (orig\<lparr>oid := fresh_oid store,
                       invoiceNumber := generateInvoiceNumber uid now store,
                       status := Draft, paidDate := None\<rparr>)
           \<and> store' = store @ [new]
           \<and> (\<forall>e\<in>set store. invoiceNumber e \<noteq> generateInvoiceNumber uid now store)"
proof -
  from assms obtain orig where f: "find (\<lambda>e. oid e = i \<and> userId e = uid) store = Some orig"
    by (auto simp: duplicateInvoice_def split: option.splits)
  let ?n = "orig\<lparr>oid := fresh_oid store, invoiceNumber := generateInvoiceNumber uid now store,
                 status := Draft, paidDate := None\<rparr>"
  from assms f have "save_new now ?n store = Inr (new, store')"
    by (auto simp: duplicateInvoice_def Let_def split: sum.splits)
  from save_new_Inr [OF this] have "new = pre_save now ?n" "store' = store @ [new]"
    "\<forall>e\<in>set store. invoiceNumber e \<noteq> generateInvoiceNumber uid now store" by simp_all
  moreover from f have "orig \<in> set store" "oid orig = i \<and> userId orig = uid"
    by (auto simp: find_Some_iff)
  ultimately show ?thesis by blast
qed

lemma validate_copy:
  assumes "validate_invoice orig" "num \<noteq> []"
  shows "validate_invoice (orig\<lparr>oid := i, invoiceNumber := num, status := Draft, paidDate := None\<rparr>)"
  using assms by (simp add: validate_invoice_def)

lemma duplicateInvoice_ok:
  assumes "find (\<lambda>e. oid e = i \<and> userId e = uid) store = Some orig"
    and "pre_save_totals orig = orig"
    and "validate_invoice orig"
    and "\<forall>e\<in>set store. invoiceNumber e \<noteq> generateInvoiceNumber uid now store"
  shows "duplicateInvoice uid i now store =
     Inr (orig\<lparr>oid := fresh_oid store,
            invoiceNumber := generateInvoiceNumber uid now store, status := Draft, paidDate := None\<rparr>,
          store @ [orig\<lparr>oid := fresh_oid store,
            invoiceNumber := generateInvoiceNumber uid now store, status := Draft, paidDate := None\<rparr>])"
proof -
  let ?n = "orig\<lparr>oid := fresh_oid store,
            invoiceNumber := generateInvoiceNumber uid now store, status := Draft, paidDate := None\<rparr>"
  have v: "validate_invoice ?n" using assms(3) generate_nonempty by (rule validate_copy)
  have "\<forall>e\<in>set store. invoiceNumber e \<noteq> invoiceNumber ?n" using assms(4) by simp
  from save_new_ok [OF v this, of now]
  have "save_new now ?n store = Inr (?n, store @ [?n])"
    unfolding pre_save_copy [OF assms(2)] .
  then show ?thesis by (simp add: duplicateInvoice_def assms(1) Let_def)
qed


lemma example_paid_persisted: "pre_save example_now example_paid_invoice = example_paid_invoice"
  by (simp add: pre_save_def pre_save_totals_eq pre_save_status_def raw_subtotal_def
      example_paid_invoice_def example_invoice_def)

lemma example_paid_totals: "pre_save_totals example_paid_invoice = example_paid_invoice"
  using pre_save_fixpoint [of example_now example_paid_invoice]
  unfolding example_paid_persisted .

lemma example_paid_valid: "validate_invoice example_paid_invoice"
  by (simp add: validate_invoice_def validate_item_def optional_maxlength_def
      example_paid_invoice_def example_invoice_def)

lemma example_paid_latest:
  "findLatest 11 (invoice_prefix example_now) [example_paid_invoice] = Some example_paid_invoice"
  "findLatest 11 (invoice_prefix example_now)
     [example_paid_invoice, example_invoice 102 12 ''INV-2025-09-0002''] = Some example_paid_invoice"
  by (simp_all add: findLatest_def example_prefix startsWith_def example_paid_invoice_def
      example_invoice_def)

lemma example_paid_next:
  assumes "findLatest 11 (invoice_prefix example_now) store = Some example_paid_invoice"
  shows "generateInvoiceNumber 11 example_now store = ''INV-2025-09-0002''"
proof -
  have "invoiceNumber example_paid_invoice = sequence_number example_now 1"
    unfolding example_sequence_numbers by (simp add: example_paid_invoice_def example_invoice_def)
  from generate_from_latest [OF assms this]
  have "generateInvoiceNumber 11 example_now store = sequence_number example_now (1 + 1)"
    by simp
  moreover have "(1::nat) + 1 = 2" by simp
  ultimately show ?thesis by (simp only: example_sequence_numbers(2))
qed


lemma example_duplicate_result:
  "duplicateInvoice 11 101 example_now [example_paid_invoice]
     = Inr (example_duplicate, [example_paid_invoice, example_duplicate])"
proof -
  have f: "find (\<lambda>e. oid e = 101 \<and> userId e = 11) [example_paid_invoice] = Some example_paid_invoice"
    by (simp add: example_paid_invoice_def example_invoice_def)
  note g = example_paid_next [OF example_paid_latest(1)]
  have o: "fresh_oid [example_paid_invoice] = 102"
    by (simp add: fresh_oid_def example_paid_invoice_def example_invoice_def)
  have "\<forall>e\<in>set [example_paid_invoice].
          invoiceNumber e \<noteq> generateInvoiceNumber 11 example_now [example_paid_invoice]"
    unfolding g by (simp add: example_paid_invoice_def example_invoice_def)
  from duplicateInvoice_ok [OF f example_paid_totals example_paid_valid this] show ?thesis
    unfolding g o example_duplicate_def by simp
qed





lemma calculateInvoiceTotals_rounds_half_away:
  assumes "\<forall>it\<in>set its. 0 < quantity it \<and> 0 \<le> rate it"
    and "0 \<le> t" "t \<le> 100" "0 \<le> d" "d \<le> 100"
  shows "fst (calculateInvoiceTotals its t d) =
     \<lparr>totals_subtotal = round_half_away (raw_subtotal its),
      totals_taxAmount = round_half_away (raw_subtotal its * t / 100),
      totals_discountAmount = round_half_away (raw_subtotal its * d / 100),
      totals_total = round_half_away (raw_subtotal its + raw_subtotal its * t / 100
                                        - raw_subtotal its * d / 100)\<rparr>"
proof -
  have s: "0 \<le> raw_subtotal its"
    using assms(1) by (intro raw_subtotal_nonneg) (auto intro: less_imp_le)
  have "0 \<le> raw_subtotal its * t / 100" "0 \<le> raw_subtotal its * d / 100"
    using s assms(2,4) by simp_all
  moreover have "0 \<le> raw_subtotal its + raw_subtotal its * t / 100 - raw_subtotal its * d / 100"
    using s assms(2,5) by (rule total_nonneg)
  ultimately show ?thesis
    using s by (simp add: calculateInvoiceTotals_eq round_cents_nonneg)
qed

lemma createInvoice_stores_raw:
  assumes "createInvoice uid req now store = Inr (doc, s)"
  shows "subtotal doc = raw_subtotal (req_items req)
     \<and> taxAmount doc = raw_subtotal (req_items req) * rate_or_zero (req_taxRate req) / 100
     \<and> discountAmount doc = raw_subtotal (req_items req) * rate_or_zero (req_discountRate req) / 100
     \<and> total doc = raw_subtotal (req_items req)
          + raw_subtotal (req_items req) * rate_or_zero (req_taxRate req) / 100
          - raw_subtotal (req_items req) * rate_or_zero (req_discountRate req) / 100"
proof -
  let ?d = "createInvoice_document uid req now (generateInvoiceNumber uid now store) (fresh_oid store)"
  from assms have "save_new now ?d store = Inr (doc, s)"
    by (auto simp: createInvoice_def Let_def split: if_splits sum.splits)
  from save_new_Inr [OF this] have "doc = pre_save now ?d" by simp
  then show ?thesis
    by (simp add: pre_save_def pre_save_status_frame pre_save_totals_eq
        createInvoice_document_eq raw_subtotal_recomputed)
qed

text \<open>
  C1. The claim asks that the four totals are rounded to two decimals, half away
  from zero, both as \<open>calculateInvoiceTotals\<close> returns them and as the saved invoice
  stores them. The calculator does round (\<open>calculateInvoiceTotals_rounds_half_away\<close>:
  on the admissible inputs every raw value is at least 0, where \<open>Math.round\<close> is
  rounding half away from zero). The saved invoice does not hold these values: the
  first hook recomputes the four fields from the items without rounding and
  overwrites what the controller stored (\<open>createInvoice_stores_raw\<close>). For one item
  of quantity 1 and rate 0.125 with tax rate 50, the calculator returns 0.13, 0.06,
  0 and 0.19, and the saved invoice holds 0.125, 0.0625, 0 and 0.1875.
\<close>

theorem C1_persisted_totals_not_rounded:
  "map_sum id (\<lambda>r. (subtotal (fst r), taxAmount (fst r), discountAmount (fst r), total (fst r)))
     (createInvoice 11 example_request example_now [])
     = Inr (1 / 8, 1 / 16, 0, 3 / 16)
   \<and> fst (calculateInvoiceTotals (req_items example_request) 50 0)
     = \<lparr>totals_subtotal = 13 / 100, totals_taxAmount = 6 / 100,
        totals_discountAmount = 0, totals_total = 19 / 100\<rparr>
   \<and> round_half_away (1 / 8) = 13 / 100 \<and> round_half_away (1 / 16) = 6 / 100
   \<and> round_half_away (3 / 16) = 19 / 100"
proof -
  have r: "raw_subtotal (req_items example_request) = 1 / 8"
    by (simp add: raw_subtotal_def example_request_def)
  have z: "rate_or_zero (req_taxRate example_request) = 50"
    "rate_or_zero (req_discountRate example_request) = 0"
    by (simp_all add: rate_or_zero_def example_request_def)
  from createInvoice_stores_raw [OF example_create_first]
  have "map_sum id (\<lambda>r. (subtotal (fst r), taxAmount (fst r), discountAmount (fst r), total (fst r)))
     (createInvoice 11 example_request example_now [])
     = Inr (1 / 8, 1 / 16, 0, 3 / 16)"
    unfolding r z by (simp add: example_create_first)
  moreover have "fst (calculateInvoiceTotals (req_items example_request) 50 0)
     = \<lparr>totals_subtotal = 13 / 100, totals_taxAmount = 6 / 100,
        totals_discountAmount = 0, totals_total = 19 / 100\<rparr>"
    by (simp add: calculateInvoiceTotals_eq r round_cents_def Math_round_def floor_rat_numeral
        floor_rat_half)
  moreover have "round_half_away (1 / 8) = 13 / 100" "round_half_away (1 / 16) = 6 / 100"
    "round_half_away (3 / 16) = 19 / 100"
    by (simp_all add: round_half_away_def floor_rat_numeral)
  ultimately show ?thesis by blast
qed

end
